theory Spec2Isabelle
  imports Complex_Main "HOL-Library.Word" "HOL-Library.AList"
begin

section \<open>The Gemini repository of fluttergpt: embedding cache and file retrieval\<close>

text \<open>
  The development embeds the class \<open>GeminiRepository\<close> (cache persistence, content hashing,
  \<open>findClosestDartFiles\<close>, \<open>euclideanDistance\<close>) and the helper \<open>handleError\<close>.

  Conventions of the embedding:
  \<^item> a JavaScript string is its sequence of UTF-16 code units;
  \<^item> a JavaScript number is an IEEE 754 double: a finite number, \<open>Infinity\<close>,
    \<open>-Infinity\<close> or \<open>NaN\<close>; every arithmetic operation rounds its exact result to the
    nearest double (ties to even), overflowing to an infinity and underflowing to zero;
    the two zeros are not told apart;
  \<^item> a thrown value is a value of the type \<open>thrown\<close>; a function that may throw returns
    \<open>thrown + 'a\<close>, and returns the state as well when it has mutated it before throwing;
  \<^item> the outside world (workspace, file system, JSON, SHA-256, the remote embedding
    service, the clock) is a record \<open>env\<close> of the answers it gives; every call to it, every
    \<open>console\<close> output and every message to the web view is an event of the trace kept in
    the state.
\<close>

subsection \<open>Strings\<close>

type_synonym jschar = "16 word"
type_synonym jsstring = "jschar list"

text \<open>An ASCII literal of the source as a JavaScript string.\<close>

definition lit :: "string \<Rightarrow> jsstring" where
  "lit s = map of_char s"

text \<open>The character class \<open>\s\<close> of a JavaScript regular expression (white space and line
  terminators); \<open>String.prototype.trim\<close> strips the same characters.\<close>

definition is_space :: "jschar \<Rightarrow> bool" where
  "is_space c \<longleftrightarrow>
     c = 0x0009 \<or> c = 0x000A \<or> c = 0x000B \<or> c = 0x000C \<or> c = 0x000D \<or> c = 0x0020 \<or>
     c = 0x00A0 \<or> c = 0x1680 \<or> (0x2000 \<le> c \<and> c \<le> 0x200A) \<or>
     c = 0x2028 \<or> c = 0x2029 \<or> c = 0x202F \<or> c = 0x205F \<or> c = 0x3000 \<or> c = 0xFEFF"

text \<open>\<open>s.replace(/\s+/g, '')\<close>: scanning from the left, every maximal run of white space is
  replaced by the empty string.\<close>

function replace_space_runs :: "jsstring \<Rightarrow> jsstring" where
  "replace_space_runs [] = []"
| "replace_space_runs (c # cs) =
     (if is_space c then replace_space_runs (dropWhile is_space cs)
      else c # replace_space_runs cs)"
  by pat_completeness auto
termination
  by (relation "measure length") (auto simp: le_imp_less_Suc length_dropWhile_le)

text \<open>\<open>s.trim()\<close>.\<close>

definition js_trim :: "jsstring \<Rightarrow> jsstring" where
  "js_trim s = rev (dropWhile is_space (rev (dropWhile is_space s)))"

text \<open>\<open>s.split('/').pop()\<close>: the part of \<open>s\<close> after its last slash (all of \<open>s\<close> when it has
  none).\<close>

definition split_slash_pop :: "jsstring \<Rightarrow> jsstring" where
  "split_slash_pop s = rev (takeWhile (\<lambda>c. c \<noteq> 0x002F) (rev s))"

subsection \<open>Numbers\<close>

datatype jsnum = Num real | Infinity | NegInfinity | NaN

text \<open>Rounding of a real to the nearest double. The doubles of magnitude below
  \<open>2 powr -1022\<close> are the multiples of \<open>2 powr -1074\<close>; from there on, the doubles of
  magnitude between \<open>2 powr k\<close> and \<open>2 powr (k + 1)\<close> are the multiples of \<open>2 powr (k - 52)\<close>
  (\<open>ulp_exponent\<close>). A real half-way between two doubles goes to the one with the even
  multiplier (\<open>round_half_even\<close>). The largest double is \<open>2 ^ 1024 - 2 ^ 971\<close>; a real at
  least half a step beyond it rounds to an infinity (\<open>overflow_threshold\<close>).\<close>

definition overflow_threshold :: real where
  "overflow_threshold = 2 ^ 1024 - 2 ^ 970"

definition ulp_exponent :: "real \<Rightarrow> int" where
  "ulp_exponent x = (if \<bar>x\<bar> < 2 powr (- 1022) then - 1074 else \<lfloor>log 2 \<bar>x\<bar>\<rfloor> - 52)"

definition round_half_even :: "real \<Rightarrow> int" where
  "round_half_even q =
     (let f = \<lfloor>q\<rfloor>
      in if q - of_int f < 1 / 2 then f
         else if 1 / 2 < q - of_int f then f + 1
         else if even f then f else f + 1)"

definition to_double :: "real \<Rightarrow> jsnum" where
  "to_double x =
     (if overflow_threshold \<le> \<bar>x\<bar> then (if 0 < x then Infinity else NegInfinity)
      else Num (of_int (round_half_even (x / 2 powr of_int (ulp_exponent x))) *
                2 powr of_int (ulp_exponent x)))"

text \<open>\<open>xs[n]\<close> is \<open>undefined\<close> (here \<open>None\<close>) out of range.\<close>

definition js_index :: "'a list \<Rightarrow> nat \<Rightarrow> 'a option" where
  "js_index xs n = (if n < length xs then Some (xs ! n) else None)"

text \<open>The operator \<open>-\<close> on two numbers.\<close>

fun js_diff :: "jsnum \<Rightarrow> jsnum \<Rightarrow> jsnum" where
  "js_diff (Num x) (Num y) = to_double (x - y)"
| "js_diff NaN y = NaN"
| "js_diff x NaN = NaN"
| "js_diff Infinity Infinity = NaN"
| "js_diff NegInfinity NegInfinity = NaN"
| "js_diff Infinity y = Infinity"
| "js_diff NegInfinity y = NegInfinity"
| "js_diff (Num x) Infinity = NegInfinity"
| "js_diff (Num x) NegInfinity = Infinity"

text \<open>\<open>x - y\<close> on the elements of two vectors, whose components are finite numbers:
  \<open>undefined\<close> converts to \<open>NaN\<close>.\<close>

fun js_minus :: "real option \<Rightarrow> real option \<Rightarrow> jsnum" where
  "js_minus (Some x) (Some y) = js_diff (Num x) (Num y)"
| "js_minus _ _ = NaN"

text \<open>\<open>Math.pow(x, 2)\<close>, \<open>x + y\<close> and \<open>Math.sqrt(x)\<close>; the two library functions are taken to
  round correctly, as the multiplication and the square root of IEEE 754 do.\<close>

fun js_pow2 :: "jsnum \<Rightarrow> jsnum" where
  "js_pow2 (Num x) = to_double (x ^ 2)"
| "js_pow2 Infinity = Infinity"
| "js_pow2 NegInfinity = Infinity"
| "js_pow2 NaN = NaN"

fun js_plus :: "jsnum \<Rightarrow> jsnum \<Rightarrow> jsnum" where
  "js_plus (Num x) (Num y) = to_double (x + y)"
| "js_plus NaN y = NaN"
| "js_plus x NaN = NaN"
| "js_plus Infinity NegInfinity = NaN"
| "js_plus NegInfinity Infinity = NaN"
| "js_plus Infinity y = Infinity"
| "js_plus NegInfinity y = NegInfinity"
| "js_plus (Num x) Infinity = Infinity"
| "js_plus (Num x) NegInfinity = NegInfinity"

fun js_sqrt :: "jsnum \<Rightarrow> jsnum" where
  "js_sqrt (Num x) = (if x < 0 then NaN else to_double (sqrt x))"
| "js_sqrt Infinity = Infinity"
| "js_sqrt NegInfinity = NaN"
| "js_sqrt NaN = NaN"

subsection \<open>The Euclidean distance\<close>

text \<open>The loop of \<open>euclideanDistance\<close>, from index \<open>n\<close> with the running value of \<open>sum\<close>.\<close>

function euclideanDistance_loop :: "real list \<Rightarrow> real list \<Rightarrow> nat \<Rightarrow> jsnum \<Rightarrow> jsnum" where
  "euclideanDistance_loop a b n acc =
     (if n < length a
      then euclideanDistance_loop a b (Suc n)
             (js_plus acc (js_pow2 (js_minus (js_index a n) (js_index b n))))
      else acc)"
  by pat_completeness auto
termination
  by (relation "measure (\<lambda>(a, b, n, acc). length a - n)") auto

declare euclideanDistance_loop.simps [simp del]

definition euclideanDistance :: "real list \<Rightarrow> real list \<Rightarrow> jsnum" where
  "euclideanDistance a b = js_sqrt (euclideanDistance_loop a b 0 (Num 0))"

subsection \<open>Thrown values, cache, state and environment\<close>

text \<open>What a \<open>throw\<close> carries: an \<open>Error\<close> with its message, a \<open>TypeError\<close> (a subclass of
  \<open>Error\<close>) raised by the runtime, or a value that is not an instance of \<open>Error\<close>.\<close>

datatype thrown = Error string | TypeError string | NonError string

fun instanceof_Error :: "thrown \<Rightarrow> bool" where
  "instanceof_Error (Error m) = True"
| "instanceof_Error (TypeError m) = True"
| "instanceof_Error (NonError m) = False"

text \<open>An entry of \<open>codehashCache\<close>, as the code reads it. \<open>codehash\<close> is the property of
  that name when it is a string; \<open>embedding\<close> is the array \<open>embedding.values\<close>. The
  entries that the code writes have both. An entry that comes from a cache file may lack
  either (\<open>None\<close>): nothing checks what \<open>JSON.parse\<close> returns. Such a \<open>codehash\<close> differs
  from every fingerprint, and reading such an \<open>embedding\<close> for the ranking throws a
  \<open>TypeError\<close>.\<close>

record cache_entry =
  codehash :: "jsstring option"
  embedding :: "real list option"

text \<open>An object keyed by file path, with its properties in insertion order: \<open>map_of\<close> reads
  a property, \<open>AList.update\<close> assigns one. The value of the field \<open>codehashCache\<close> is such an
  object, or \<open>null\<close> when the cache file held \<open>null\<close>; \<open>JSON.parse\<close> is taken to return one
  of the two when it does not throw.\<close>

type_synonym cache = "(jsstring \<times> cache_entry) list"

datatype cache_value = JsNull | JsObject cache

text \<open>The events: calls to the outside world, console output, messages to the web view
  (\<open>DisplayWebViewMessage\<close> carries the file names of the result, \<open>DisplayFetchingFileLoader\<close>
  is the message of the timer), the assignment \<open>operationCompleted = true\<close>, and the firing
  of the timer.\<close>

datatype event =
    ConsoleError string thrown
  | ConsoleLog string "jsstring list"
  | FsExistsSync jsstring
  | FsReadFile jsstring
  | FsWriteFile jsstring jsstring
  | FindFiles
  | OpenTextDocument jsstring
  | BatchEmbedContents "jsstring list"
  | EmbedContent jsstring
  | DisplayWebViewMessage "jsstring list"
  | OperationCompleted
  | Timeout
  | DisplayFetchingFileLoader

record repository =
  apiKey :: "jsstring option"
  codehashCache :: cache_value
  trace :: "event list"

text \<open>The answers of the outside world. \<open>batchEmbedContents\<close> takes the number of the batch
  within the call, so that two batches may fare differently. A file is identified with the
  \<open>path\<close> of its \<open>Uri\<close>. \<open>timer_fires_after\<close> is the number of events of a call that
  happen before its five-second timer fires.\<close>

record env =
  workspaceFolders :: "jsstring list option"
  tmpdir :: jsstring
  sha256_hex :: "jsstring \<Rightarrow> jsstring"
  existsSync :: "jsstring \<Rightarrow> bool"
  readFile :: "jsstring \<Rightarrow> thrown + jsstring"
  JSON_parse :: "jsstring \<Rightarrow> thrown + cache_value"
  JSON_stringify :: "cache_value \<Rightarrow> jsstring"
  writeFile :: "jsstring \<Rightarrow> jsstring \<Rightarrow> thrown option"
  findFiles :: "thrown + jsstring list"
  openTextDocument :: "jsstring \<Rightarrow> thrown + jsstring"
  asRelativePath :: "jsstring \<Rightarrow> jsstring"
  batchEmbedContents :: "nat \<Rightarrow> jsstring list \<Rightarrow> thrown + real list list"
  embedContent :: "jsstring \<Rightarrow> thrown + real list"
  timer_fires_after :: nat

definition emit :: "event \<Rightarrow> repository \<Rightarrow> repository" where
  "emit e s = s\<lparr>trace := trace s @ [e]\<rparr>"

text \<open>\<open>!this.apiKey\<close> holds for \<open>undefined\<close> and for the empty string.\<close>

definition truthy :: "jsstring option \<Rightarrow> bool" where
  "truthy k = (case k of None \<Rightarrow> False | Some s \<Rightarrow> s \<noteq> [])"

subsection \<open>Hashing and cache persistence\<close>

definition handleError :: "thrown \<Rightarrow> string \<Rightarrow> repository \<Rightarrow> (thrown + 'a) \<times> repository" where
  "handleError error userFriendlyMessage s =
     (Inl (Error userFriendlyMessage), emit (ConsoleError [] error) s)"

definition computeCodehash :: "env \<Rightarrow> jsstring \<Rightarrow> jsstring" where
  "computeCodehash env fileContents =
     (let normalizedContent = replace_space_runs fileContents
      in sha256_hex env normalizedContent)"

text \<open>The getter \<open>cacheFilePath\<close>. An empty folder array makes \<open>workspaceFolders[0].uri\<close>
  a \<open>TypeError\<close>. \<open>path.join\<close> is taken on segments that need no normalisation.\<close>

definition cacheFilePath :: "env \<Rightarrow> thrown + jsstring" where
  "cacheFilePath env =
     (case workspaceFolders env of
        None \<Rightarrow> Inl (Error ''No workspace folders found.'')
      | Some [] \<Rightarrow> Inl (TypeError ''Cannot read properties of undefined (reading uri)'')
      | Some (projectFolder # _) \<Rightarrow>
          (let hash = computeCodehash env projectFolder
           in Inr (tmpdir env @ lit ''/'' @ lit ''flutterGPT'' @ lit ''/'' @
                   hash @ lit ''.codehashCache.json'')))"

text \<open>The \<open>try\<close> block of \<open>saveCache\<close>, then \<open>saveCache\<close> with its \<open>catch\<close>.\<close>

definition saveCache_try :: "env \<Rightarrow> repository \<Rightarrow> (thrown + unit) \<times> repository" where
  "saveCache_try env s =
     (let cacheData = JSON_stringify env (codehashCache s)
      in case cacheFilePath env of
           Inl error \<Rightarrow> (Inl error, s)
         | Inr cachePath \<Rightarrow>
             (case writeFile env cachePath cacheData of
                Some error \<Rightarrow> (Inl error, emit (FsWriteFile cachePath cacheData) s)
              | None \<Rightarrow> (Inr (), emit (FsWriteFile cachePath cacheData) s)))"

definition saveCache :: "env \<Rightarrow> repository \<Rightarrow> (thrown + unit) \<times> repository" where
  "saveCache env s =
     (case saveCache_try env s of
        (Inr u, s') \<Rightarrow> (Inr u, s')
      | (Inl error, s') \<Rightarrow>
          if instanceof_Error error
          then handleError error ''Failed to save the cache data.'' s'
          else (Inr (), emit (ConsoleError ''An unexpected error type was thrown:'' error) s'))"

text \<open>The \<open>try\<close> block of \<open>loadCache\<close>, then \<open>loadCache\<close> with its \<open>catch\<close>, which only
  logs. What \<open>JSON.parse\<close> returns is assigned as it is.\<close>

definition loadCache_try :: "env \<Rightarrow> repository \<Rightarrow> (thrown + unit) \<times> repository" where
  "loadCache_try env s =
     (case cacheFilePath env of
        Inl error \<Rightarrow> (Inl error, s)
      | Inr cachePath \<Rightarrow>
          (let s1 = emit (FsExistsSync cachePath) s
           in if existsSync env cachePath
              then (let s2 = emit (FsReadFile cachePath) s1
                    in case readFile env cachePath of
                         Inl error \<Rightarrow> (Inl error, s2)
                       | Inr cacheData \<Rightarrow>
                           (case JSON_parse env cacheData of
                              Inl error \<Rightarrow> (Inl error, s2)
                            | Inr parsed \<Rightarrow> (Inr (), s2\<lparr>codehashCache := parsed\<rparr>)))
              else (Inr (), s1)))"

definition loadCache :: "env \<Rightarrow> repository \<Rightarrow> repository" where
  "loadCache env s =
     (case loadCache_try env s of
        (Inr u, s') \<Rightarrow> s'
      | (Inl error, s') \<Rightarrow> emit (ConsoleError ''Error loading cache: '' error) s')"

subsection \<open>Listing and diffing\<close>

text \<open>An element of \<open>fileContents\<close>: the fields \<open>text\<close>, \<open>path\<close> and \<open>codehash\<close>.\<close>

record file_content =
  fc_text :: jsstring
  fc_path :: jsstring
  fc_codehash :: jsstring

text \<open>The template literal that renders a file.\<close>

definition render_text :: "jsstring \<Rightarrow> jsstring \<Rightarrow> jsstring \<Rightarrow> jsstring" where
  "render_text fileName relativePath code =
     lit ''File name: '' @ fileName @ lit ''\<newline>File path: '' @ relativePath @
     lit ''\<newline>File code:\<newline>\<newline>```dart\<newline>'' @ code @
     lit ''```\<newline>\<newline>------\<newline>\<newline>''"

text \<open>The asynchronous function mapped over \<open>dartFiles\<close>.\<close>

definition read_file :: "env \<Rightarrow> jsstring \<Rightarrow> thrown + file_content" where
  "read_file env file =
     (case openTextDocument env file of
        Inl error \<Rightarrow> Inl error
      | Inr documentText \<Rightarrow>
          (let relativePath = asRelativePath env file;
               text = render_text (split_slash_pop file) relativePath documentText;
               codehash = computeCodehash env text
           in Inr \<lparr>fc_text = text, fc_path = file, fc_codehash = codehash\<rparr>))"

text \<open>\<open>Promise.all\<close>: all results in order, or a rejection. Which of several rejections
  wins depends on timing; the model takes the first in the order of the array.\<close>

fun promise_all :: "(thrown + 'a) list \<Rightarrow> thrown + 'a list" where
  "promise_all [] = Inr []"
| "promise_all (Inl error # ps) = Inl error"
| "promise_all (Inr x # ps) =
     (case promise_all ps of Inl error \<Rightarrow> Inl error | Inr xs \<Rightarrow> Inr (x # xs))"

text \<open>The predicate of the filter that yields \<open>filesToUpdate\<close>, on a cache object.\<close>

definition needs_update :: "cache \<Rightarrow> file_content \<Rightarrow> bool" where
  "needs_update c fileContent =
     (case map_of c (fc_path fileContent) of
        None \<Rightarrow> True
      | Some cachedEntry \<Rightarrow> codehash cachedEntry \<noteq> Some (fc_codehash fileContent))"

text \<open>The filter. On the cache \<open>null\<close>, the first call of the predicate throws.\<close>

definition filesToUpdate :: "cache_value \<Rightarrow> file_content list \<Rightarrow> thrown + file_content list" where
  "filesToUpdate cv fileContents =
     (case cv of
        JsObject c \<Rightarrow> Inr (filter (needs_update c) fileContents)
      | JsNull \<Rightarrow>
          if fileContents = [] then Inr []
          else Inl (TypeError ''Cannot read properties of null''))"

text \<open>The loop that slices \<open>filesToUpdate\<close> into batches of \<open>batchSize = 100\<close>.\<close>

function batches :: "'a list \<Rightarrow> 'a list list" where
  "batches xs = (if xs = [] then [] else take 100 xs # batches (drop 100 xs))"
  by pat_completeness auto
termination
  by (relation "measure length") auto

declare batches.simps [simp del]

subsection \<open>Embedding the batches\<close>

text \<open>The \<open>forEach\<close> over the embeddings returned for a batch, from position \<open>index\<close>. It
  assigns into the cache in place, so the cache is returned also when \<open>batch[index]\<close> is
  \<open>undefined\<close> and reading its \<open>path\<close> throws, or when the cache is \<open>null\<close> and the
  assignment throws.\<close>

fun forEach_embedding ::
  "file_content list \<Rightarrow> real list list \<Rightarrow> nat \<Rightarrow> cache_value \<Rightarrow> thrown option \<times> cache_value" where
  "forEach_embedding batch [] index cv = (None, cv)"
| "forEach_embedding batch (e # rest) index cv =
     (case js_index batch index of
        None \<Rightarrow> (Some (TypeError ''Cannot read properties of undefined (reading path)''), cv)
      | Some fileContent \<Rightarrow>
          (case cv of
             JsNull \<Rightarrow> (Some (TypeError ''Cannot set properties of null''), cv)
           | JsObject c \<Rightarrow>
               forEach_embedding batch rest (Suc index)
                 (JsObject (AList.update (fc_path fileContent)
                    \<lparr>codehash = Some (fc_codehash fileContent), embedding = Some e\<rparr> c))))"

text \<open>The body of the loop over the batches: \<open>i\<close> is the number of the batch.\<close>

definition process_batch :: "env \<Rightarrow> nat \<Rightarrow> file_content list \<Rightarrow> repository \<Rightarrow> repository" where
  "process_batch env i batch s =
     (let requests = map fc_text batch;
          s1 = emit (BatchEmbedContents requests) s
      in case batchEmbedContents env i requests of
           Inl error \<Rightarrow> emit (ConsoleError ''Error embedding documents:'' error) s1
         | Inr embeddings \<Rightarrow>
             (case forEach_embedding batch embeddings 0 (codehashCache s1) of
                (None, cv) \<Rightarrow> s1\<lparr>codehashCache := cv\<rparr>
              | (Some error, cv) \<Rightarrow>
                  emit (ConsoleError ''Error embedding documents:'' error)
                    (s1\<lparr>codehashCache := cv\<rparr>)))"

fun process_batches ::
  "env \<Rightarrow> nat \<Rightarrow> file_content list list \<Rightarrow> repository \<Rightarrow> repository" where
  "process_batches env i [] s = s"
| "process_batches env i (batch # rest) s =
     process_batches env (Suc i) rest (process_batch env i batch s)"

subsection \<open>Ranking\<close>

text \<open>The \<open>map\<close> that computes \<open>distances\<close>: on the cache \<open>null\<close>, on a missing cache entry
  and on an entry without embedding, reading \<open>embedding.values\<close> or its \<open>length\<close> throws a
  \<open>TypeError\<close>.\<close>

fun distances ::
  "cache_value \<Rightarrow> real list \<Rightarrow> jsstring list \<Rightarrow> thrown + (jsstring \<times> jsnum) list" where
  "distances cv queryEmbedding [] = Inr []"
| "distances cv queryEmbedding (file # files) =
     (case cv of
        JsNull \<Rightarrow> Inl (TypeError ''Cannot read properties of null'')
      | JsObject c \<Rightarrow>
     (case map_of c file of
        None \<Rightarrow> Inl (TypeError ''Cannot read properties of undefined (reading embedding)'')
      | Some entry \<Rightarrow>
     (case embedding entry of
        None \<Rightarrow> Inl (TypeError ''Cannot read properties of undefined'')
      | Some a \<Rightarrow>
     (case distances cv queryEmbedding files of
        Inl error \<Rightarrow> Inl error
      | Inr ds \<Rightarrow> Inr ((file, euclideanDistance a queryEmbedding) # ds)))))"

text \<open>The comparator \<open>(a, b) => a.distance - b.distance\<close>.\<close>

definition by_distance :: "jsstring \<times> jsnum \<Rightarrow> jsstring \<times> jsnum \<Rightarrow> jsnum" where
  "by_distance a b = js_diff (snd a) (snd b)"

text \<open>\<open>Array.prototype.sort\<close> with a comparator is stable: \<open>a\<close> goes behind \<open>b\<close> only when
  the comparator is positive on \<open>(a, b)\<close>; a comparator value \<open>NaN\<close> counts as zero. For a
  consistent comparator the result is the stable sorted arrangement, which insertion from
  the right computes. Where the comparator is not consistent the language leaves the order
  to the implementation; nothing below relies on the order in that case.\<close>

fun is_positive :: "jsnum \<Rightarrow> bool" where
  "is_positive (Num x) = (0 < x)"
| "is_positive Infinity = True"
| "is_positive NegInfinity = False"
| "is_positive NaN = False"

fun sort_insert :: "('a \<Rightarrow> 'a \<Rightarrow> jsnum) \<Rightarrow> 'a \<Rightarrow> 'a list \<Rightarrow> 'a list" where
  "sort_insert cmp a [] = [a]"
| "sort_insert cmp a (b # bs) =
     (if is_positive (cmp a b) then b # sort_insert cmp a bs else a # b # bs)"

definition js_sort :: "('a \<Rightarrow> 'a \<Rightarrow> jsnum) \<Rightarrow> 'a list \<Rightarrow> 'a list" where
  "js_sort cmp xs = foldr (sort_insert cmp) xs []"

text \<open>\<open>distances\<close> after the sort, cut by \<open>slice(0, 5)\<close>.\<close>

definition closest5 :: "(jsstring \<times> jsnum) list \<Rightarrow> (jsstring \<times> jsnum) list" where
  "closest5 ds = take 5 (js_sort by_distance ds)"

text \<open>\<open>fileContents.find(fc => fc.path === file.path)?.text\<close>, appended to a string:
  \<open>undefined\<close> is appended as the text \<open>undefined\<close>.\<close>

definition found_text :: "file_content list \<Rightarrow> jsstring \<Rightarrow> jsstring" where
  "found_text fileContents file =
     (case find (\<lambda>fc. fc_path fc = file) fileContents of
        None \<Rightarrow> lit ''undefined''
      | Some fc \<Rightarrow> fc_text fc)"

definition build_resultString :: "file_content list \<Rightarrow> (jsstring \<times> jsnum) list \<Rightarrow> jsstring" where
  "build_resultString fileContents closest =
     foldl (\<lambda>resultString fileEmbedding. resultString @ found_text fileContents (fst fileEmbedding))
       [] closest"

subsection \<open>The retrieval call\<close>

text \<open>The last part of \<open>findClosestDartFiles\<close>: the query is embedded, the files are ranked,
  and the texts of the closest five make the result.\<close>

definition rank_files ::
  "env \<Rightarrow> jsstring \<Rightarrow> jsstring list \<Rightarrow> file_content list \<Rightarrow> repository \<Rightarrow>
   (thrown + jsstring) \<times> repository" where
  "rank_files env query dartFiles fileContents s4 =
     (let s5 = emit (EmbedContent query) s4
      in case embedContent env query of
           Inl error \<Rightarrow> (Inl error, s5)
         | Inr queryEmbedding \<Rightarrow>
      (case distances (codehashCache s5) queryEmbedding dartFiles of
         Inl error \<Rightarrow> (Inl error, s5)
       | Inr ds \<Rightarrow>
      (let closest = closest5 ds;
           resultString = build_resultString fileContents closest;
           filePaths = map (\<lambda>fileEmbedding. split_slash_pop (fst fileEmbedding)) closest;
           s6 = emit (DisplayWebViewMessage filePaths) s5;
           s7 = emit (ConsoleLog ''Most relevant file paths:'' filePaths) s6
       in (Inr (js_trim resultString), s7))))"

text \<open>\<open>findClosestDartFiles\<close> from the enumeration of the files on: listing, diffing,
  embedding of the batches, saving of the cache, \<open>operationCompleted = true\<close>, ranking.\<close>

definition retrieve :: "env \<Rightarrow> jsstring \<Rightarrow> repository \<Rightarrow> (thrown + jsstring) \<times> repository" where
  "retrieve env query s0 =
     (let s1 = emit FindFiles s0
      in case findFiles env of
           Inl error \<Rightarrow> (Inl error, s1)
         | Inr dartFiles \<Rightarrow>
      (let s2 = s1\<lparr>trace := trace s1 @ map OpenTextDocument dartFiles\<rparr>
       in case promise_all (map (read_file env) dartFiles) of
            Inl error \<Rightarrow> (Inl error, s2)
          | Inr fileContents \<Rightarrow>
      (case filesToUpdate (codehashCache s2) fileContents of
         Inl error \<Rightarrow> (Inl error, s2)
       | Inr toUpdate \<Rightarrow>
      (let s3 = process_batches env 0 (batches toUpdate) s2
       in case saveCache env s3 of
            (Inl error, s4) \<Rightarrow> (Inl error, s4)
          | (Inr u, s4) \<Rightarrow>
              rank_files env query dartFiles fileContents (emit OperationCompleted s4)))))"

text \<open>The message of the error thrown when the API key is not set.\<close>

definition API_token_not_set :: string where
  "API_token_not_set =
     ''API token not set, please go to extension settings to set it (read README.md for more info)''"

text \<open>The \<open>try\<close> block of \<open>findClosestDartFiles\<close>: the check of the key, the loading of the
  cache when \<open>Object.keys(this.codehashCache)\<close> is empty (on \<open>null\<close> that call throws), and
  the retrieval.\<close>

definition findClosestDartFiles_try ::
  "env \<Rightarrow> jsstring \<Rightarrow> repository \<Rightarrow> (thrown + jsstring) \<times> repository" where
  "findClosestDartFiles_try env query s =
     (if \<not> truthy (apiKey s)
      then (Inl (Error API_token_not_set), s)
      else case codehashCache s of
             JsNull \<Rightarrow> (Inl (TypeError ''Cannot convert undefined or null to object''), s)
           | JsObject c \<Rightarrow> retrieve env query (if c = [] then loadCache env s else s))"

text \<open>The \<open>try\<close> block with its \<open>catch\<close>, which logs and rethrows.\<close>

definition findClosestDartFiles_catch ::
  "env \<Rightarrow> jsstring \<Rightarrow> repository \<Rightarrow> (thrown + jsstring) \<times> repository" where
  "findClosestDartFiles_catch env query s =
     (case findClosestDartFiles_try env query s of
        (Inl error, s') \<Rightarrow>
          (Inl error, emit (ConsoleError ''Error finding closest Dart files: '' error) s')
      | (Inr result, s') \<Rightarrow> (Inr result, s'))"

text \<open>The timer that \<open>findClosestDartFiles\<close> starts first fires once, after \<open>n\<close> of the events
  \<open>evs\<close> of the call; it displays the message \<open>fetchingFileLoader\<close> unless
  \<open>operationCompleted\<close> has been set by then.\<close>

definition timer_events :: "event list \<Rightarrow> nat \<Rightarrow> event list" where
  "timer_events evs n =
     take n evs @
     Timeout # (if OperationCompleted \<in> set (take n evs) then [] else [DisplayFetchingFileLoader]) @
     drop n evs"

text \<open>\<open>findClosestDartFiles\<close>. Its \<open>finally\<close> block awaits the timer, so the call settles only
  when the timer has fired: the events of the call are those of the \<open>try\<close> and \<open>catch\<close>
  blocks with those of the timer among them.\<close>

definition findClosestDartFiles ::
  "env \<Rightarrow> jsstring \<Rightarrow> repository \<Rightarrow> (thrown + jsstring) \<times> repository" where
  "findClosestDartFiles env query s =
     (case findClosestDartFiles_catch env query (s\<lparr>trace := []\<rparr>) of
        (outcome, s') \<Rightarrow>
          (outcome, s'\<lparr>trace := trace s @ timer_events (trace s') (timer_fires_after env)\<rparr>))"

subsection \<open>Notions used in the statements\<close>

text \<open>A number that is not negative, or \<open>Infinity\<close>; and the order of such numbers.\<close>

fun nonneg_or_infinity :: "jsnum \<Rightarrow> bool" where
  "nonneg_or_infinity (Num x) = (0 \<le> x)"
| "nonneg_or_infinity Infinity = True"
| "nonneg_or_infinity NegInfinity = False"
| "nonneg_or_infinity NaN = False"

fun distance_le :: "jsnum \<Rightarrow> jsnum \<Rightarrow> bool" where
  "distance_le (Num x) (Num y) = (x \<le> y)"
| "distance_le (Num x) Infinity = True"
| "distance_le Infinity Infinity = True"
| "distance_le x y = False"

text \<open>What \<open>Math.sqrt\<close> returns on such a number: \<open>Infinity\<close>, or a multiple of the smallest
  positive double that is not negative.\<close>

definition is_distance :: "jsnum \<Rightarrow> bool" where
  "is_distance d \<longleftrightarrow>
     d = Infinity \<or> (\<exists>i::int. 0 \<le> i \<and> d = Num (of_int i * 2 powr (- 1074)))"

text \<open>The remote service answers in step with its requests: in every answer of
  \<open>batchEmbedContents\<close>, the embedding at a position is the embedding \<open>emb\<close> of the text
  requested at that position.\<close>

definition aligned :: "env \<Rightarrow> (jsstring \<Rightarrow> real list) \<Rightarrow> bool" where
  "aligned env emb \<longleftrightarrow>
     (\<forall>i requests embeddings. batchEmbedContents env i requests = Inr embeddings \<longrightarrow>
        (\<forall>j<length embeddings. j < length requests \<longrightarrow> embeddings ! j = emb (requests ! j)))"

text \<open>The requests sent to \<open>batchEmbedContents\<close>, in the order of a trace.\<close>

fun batch_requests :: "event list \<Rightarrow> jsstring list list" where
  "batch_requests [] = []"
| "batch_requests (BatchEmbedContents requests # es) = requests # batch_requests es"
| "batch_requests (e # es) = batch_requests es"

subsection \<open>Example environments\<close>

text \<open>A workspace with one Dart file, no cache file on disk, and an embedding service that
  answers every text with the vector \<open>[0]\<close>. The identity stands in for the digest. The
  call is over when its timer fires.\<close>

definition example_env :: env where
  "example_env =
     \<lparr>workspaceFolders = Some [lit ''/w''], tmpdir = lit ''/tmp'', sha256_hex = (\<lambda>s. s),
      existsSync = (\<lambda>p. False), readFile = (\<lambda>p. Inl (Error ''ENOENT'')),
      JSON_parse = (\<lambda>d. Inl (Error ''Unexpected token'')), JSON_stringify = (\<lambda>c. []),
      writeFile = (\<lambda>p d. None), findFiles = Inr [lit ''/w/a.dart''],
      openTextDocument = (\<lambda>f. Inr (lit ''x'')), asRelativePath = (\<lambda>f. drop 3 f),
      batchEmbedContents = (\<lambda>i ts. Inr (map (\<lambda>t. [0]) ts)),
      embedContent = (\<lambda>q. Inr [0]), timer_fires_after = 100\<rparr>"

definition example_repository :: repository where
  "example_repository = \<lparr>apiKey = Some (lit ''key''), codehashCache = JsObject [], trace = []\<rparr>"

text \<open>Two doubles: the square of the first overflows, the square of the second underflows.\<close>

definition huge :: real where
  "huge = 2 ^ 600"

definition tiny :: real where
  "tiny = 1 / 2 ^ 600"

section \<open>Properties\<close>

subsection \<open>Content hashing\<close>

lemma filter_dropWhile_space:
  "filter (\<lambda>c. \<not> is_space c) (dropWhile is_space cs) = filter (\<lambda>c. \<not> is_space c) cs"
  by (induction cs) auto

lemma replace_space_runs_filter:
  "replace_space_runs s = filter (\<lambda>c. \<not> is_space c) s"
  by (induction s rule: replace_space_runs.induct) (auto simp: filter_dropWhile_space)

text \<open>
  Claim C4. The fingerprint \<open>computeCodehash\<close> is a function of the text (and of the digest
  it is given) alone. Two texts that differ only in white space, that is, whose characters
  other than white space are the same in the same order, have the same fingerprint. The
  empty string is hashed like any other: its fingerprint is the digest of the empty string.
\<close>

theorem computeCodehash_whitespace:
  "(filter (\<lambda>c. \<not> is_space c) t1 = filter (\<lambda>c. \<not> is_space c) t2 \<longrightarrow>
      computeCodehash env t1 = computeCodehash env t2) \<and>
   computeCodehash env [] = sha256_hex env []"
  by (simp add: computeCodehash_def replace_space_runs_filter)

theorem computeCodehash_whitespace_witness:
  "filter (\<lambda>c. \<not> is_space c) (lit ''a b'') = filter (\<lambda>c. \<not> is_space c) (lit ''a\<newline>  b'') \<and>
   computeCodehash example_env (lit ''a b'') = computeCodehash example_env (lit ''a\<newline>  b'')"
  using computeCodehash_whitespace [of "lit ''a b''" "lit ''a\<newline>  b''" example_env]
  by (simp add: lit_def is_space_def)

subsection \<open>Rounding to a double\<close>

lemma round_half_even_bounds: "\<lfloor>q\<rfloor> \<le> round_half_even q \<and> round_half_even q \<le> \<lfloor>q\<rfloor> + 1"
  by (simp add: round_half_even_def Let_def)

lemma round_half_even_of_int [simp]: "round_half_even (of_int i) = i"
  by (simp add: round_half_even_def Let_def)

lemma round_half_even_nonneg: "0 \<le> q \<Longrightarrow> 0 \<le> round_half_even q"
  using round_half_even_bounds [of q] by (smt (verit) zero_le_floor)

lemma round_half_even_nonpos: "q \<le> 0 \<Longrightarrow> round_half_even q \<le> 0"
proof -
  assume q: "q \<le> 0"
  show ?thesis
  proof (cases "q = of_int \<lfloor>q\<rfloor>")
    case True
    then have "round_half_even q = \<lfloor>q\<rfloor>"
      by (metis round_half_even_of_int)
    then show ?thesis using q by (simp add: floor_le_zero)
  next
    case False
    then have "of_int \<lfloor>q\<rfloor> < q" using of_int_floor_le [of q] by linarith
    then have "\<lfloor>q\<rfloor> < 0" using q by linarith
    then show ?thesis using round_half_even_bounds [of q] by linarith
  qed
qed

lemma round_half_even_pos: "1 \<le> q \<Longrightarrow> 1 \<le> round_half_even q"
proof -
  assume "1 \<le> q"
  then have "1 \<le> \<lfloor>q\<rfloor>" by (simp add: le_floor_iff)
  then show ?thesis using round_half_even_bounds [of q] by linarith
qed

lemma round_half_even_small: "\<bar>q\<bar> < 1 / 2 \<Longrightarrow> round_half_even q = 0"
proof -
  assume a: "\<bar>q\<bar> < 1 / 2"
  show ?thesis
  proof (cases "0 \<le> q")
    case True
    then have "\<lfloor>q\<rfloor> = 0" using a by (simp add: floor_eq_iff)
    then show ?thesis using a True by (simp add: round_half_even_def Let_def)
  next
    case False
    then have f: "\<lfloor>q\<rfloor> = - 1" using a by (simp add: floor_eq_iff)
    then show ?thesis using a False by (simp add: round_half_even_def Let_def)
  qed
qed

lemma ulp_exponent_ge: "- 1074 \<le> ulp_exponent x"
proof (cases "\<bar>x\<bar> < 2 powr (- 1022)")
  case True
  then show ?thesis by (simp add: ulp_exponent_def)
next
  case False
  then have "2 powr (- 1022) \<le> \<bar>x\<bar>" by simp
  then have "- 1022 \<le> log 2 \<bar>x\<bar>"
    by (smt (verit) le_log_iff powr_gt_zero)
  then have "- 1022 \<le> \<lfloor>log 2 \<bar>x\<bar>\<rfloor>" by linarith
  then show ?thesis using False by (simp add: ulp_exponent_def; linarith)
qed

lemma ulp_le: "2 powr (- 1074) \<le> \<bar>x\<bar> \<Longrightarrow> 2 powr of_int (ulp_exponent x) \<le> \<bar>x\<bar>"
proof (cases "\<bar>x\<bar> < 2 powr (- 1022)")
  case True
  assume "2 powr (- 1074) \<le> \<bar>x\<bar>"
  then show ?thesis using True by (simp add: ulp_exponent_def)
next
  case False
  then have pos: "0 < \<bar>x\<bar>" by (smt (verit) powr_gt_zero)
  have "of_int (\<lfloor>log 2 \<bar>x\<bar>\<rfloor> - 52) \<le> log 2 \<bar>x\<bar>"
    using of_int_floor_le [of "log 2 \<bar>x\<bar>"] by linarith
  then have "2 powr of_int (\<lfloor>log 2 \<bar>x\<bar>\<rfloor> - 52) \<le> 2 powr log 2 \<bar>x\<bar>"
    by (simp only: powr_le_cancel_iff) 
  also have "\<dots> = \<bar>x\<bar>" using pos by simp
  finally show ?thesis using False by (simp add: ulp_exponent_def)
qed

lemma ulp_grid: "\<exists>k::nat. (2::real) powr of_int (ulp_exponent x) = 2 ^ k * 2 powr (- 1074)"
proof -
  define k where "k = nat (ulp_exponent x + 1074)"
  have "of_int (ulp_exponent x) = real k + (- 1074)"
    using ulp_exponent_ge [of x] by (simp add: k_def)
  then have "(2::real) powr of_int (ulp_exponent x) = 2 powr real k * 2 powr (- 1074)"
    by (simp only: powr_add)
  then show ?thesis by (simp add: powr_realpow)
qed

lemma to_double_cases:
  "to_double x = Infinity \<and> 0 < x \<or> to_double x = NegInfinity \<and> x \<le> 0 \<or>
   (\<exists>i::int. to_double x = Num (of_int i * 2 powr (- 1074)) \<and> (0 \<le> x \<longrightarrow> 0 \<le> i) \<and>
      (x \<le> 0 \<longrightarrow> i \<le> 0) \<and> (2 powr (- 1074) \<le> x \<longrightarrow> 0 < i))"
proof (cases "overflow_threshold \<le> \<bar>x\<bar>")
  case True
  then show ?thesis by (simp add: to_double_def)
next
  case False
  define u :: real where "u = 2 powr of_int (ulp_exponent x)"
  define n where "n = round_half_even (x / u)"
  obtain k :: nat where k: "u = 2 ^ k * 2 powr (- 1074)"
    using ulp_grid [of x] by (auto simp: u_def)
  have u: "0 < u" by (simp add: u_def)
  have d: "to_double x = Num (of_int (n * 2 ^ k) * 2 powr (- 1074))"
    using False by (simp add: to_double_def n_def u_def [symmetric] k)
  have p: "0 < (2::int) ^ k" by simp
  have "0 \<le> x \<Longrightarrow> 0 \<le> n" using u by (simp add: n_def round_half_even_nonneg)
  then have a: "0 \<le> x \<longrightarrow> 0 \<le> n * 2 ^ k" by simp
  have "x \<le> 0 \<Longrightarrow> n \<le> 0"
    using u by (simp add: n_def round_half_even_nonpos divide_nonpos_pos)
  then have b: "x \<le> 0 \<longrightarrow> n * 2 ^ k \<le> 0" using p by (simp add: mult_le_0_iff)
  have "2 powr (- 1074) \<le> x \<Longrightarrow> 1 \<le> n"
  proof -
    assume g: "2 powr (- 1074) \<le> x"
    then have "0 \<le> x" by (smt (verit) powr_ge_zero)
    then have "u \<le> x" using ulp_le [of x] g by (simp add: u_def)
    then have "1 \<le> x / u" using u by simp
    then show ?thesis by (simp add: n_def round_half_even_pos)
  qed
  then have c: "2 powr (- 1074) \<le> x \<longrightarrow> 0 < n * 2 ^ k"
    using p by (auto simp: zero_less_mult_iff)
  from d a b c show ?thesis by blast
qed

lemma to_double_zero [simp]: "to_double 0 = Num 0"
  using round_half_even_of_int [of 0] by (simp add: to_double_def overflow_threshold_def)

lemma to_double_underflow:
  assumes "\<bar>x\<bar> < 2 powr (- 1075)"
  shows "to_double x = Num 0"
proof -
  have lt: "(2::real) powr (- 1075) < 2 powr (- 1022)" by simp
  then have "\<bar>x\<bar> < 2 powr (- 1022)" using assms by linarith
  then have e: "ulp_exponent x = - 1074" by (simp add: ulp_exponent_def)
  have "(2::real) powr (- 1075) = (1 / 2) * 2 powr (- 1074 :: real)"
    by (simp add: powr_diff [of 2 "- 1074" 1, simplified])
  then have "\<bar>x / 2 powr (- 1074)\<bar> < 1 / 2" using assms by (simp add: field_simps)
  then have r: "round_half_even (x / 2 powr (- 1074)) = 0" by (rule round_half_even_small)
  have "\<bar>x\<bar> < 1" using assms lt by (smt (verit) powr_less_cancel_iff powr_zero_eq_one)
  then have "\<not> overflow_threshold \<le> \<bar>x\<bar>" by (simp add: overflow_threshold_def)
  then show ?thesis using e r by (simp add: to_double_def)
qed

lemma to_double_power2:
  assumes "n \<le> 1023"
  shows "to_double (2 ^ n) = Num (2 ^ n)"
proof -
  have "(2::real) ^ n \<le> 2 ^ 1023" using assms by (intro power_increasing) auto
  also have "\<dots> < overflow_threshold" by (simp add: overflow_threshold_def)
  finally have small: "\<not> overflow_threshold \<le> \<bar>(2::real) ^ n\<bar>" by simp
  have "(2::real) powr (- 1022) < 1" by (simp add: powr_minus)
  also have "(1::real) \<le> 2 ^ n" by simp
  finally have normal: "\<not> \<bar>(2::real) ^ n\<bar> < 2 powr (- 1022)" by simp
  have e: "ulp_exponent (2 ^ n) = int n - 52"
    using normal by (simp add: ulp_exponent_def)
  have "(2::real) ^ n = 2 powr real n" by (simp add: powr_realpow)
  then have "(2::real) ^ n / 2 powr of_int (int n - 52) = 2 powr 52"
    by (simp add: powr_diff [symmetric])
  also have "\<dots> = of_int (2 ^ 52)" by simp
  finally have q: "round_half_even ((2::real) ^ n / 2 powr of_int (int n - 52)) = 2 ^ 52"
    by (simp only: round_half_even_of_int)
  have "of_int (2 ^ 52) * 2 powr of_int (int n - 52) = (2::real) powr 52 * 2 powr (real n - 52)"
    by simp
  also have "\<dots> = 2 powr (52 + (real n - 52))" by (simp only: powr_add)
  also have "\<dots> = 2 powr real n" by simp
  also have "\<dots> = 2 ^ n" by (simp add: powr_realpow)
  finally show ?thesis using small e q by (simp add: to_double_def)
qed


lemma to_double_power2_minus:
  assumes "n \<le> 1022"
  shows "to_double (1 / 2 ^ n) = Num (1 / 2 ^ n)"
proof -
  have x: "(1::real) / 2 ^ n = 2 powr (- real n)" by (simp add: powr_minus powr_realpow field_simps)
  have "(2::real) powr (- real n) \<le> 2 powr 0" by (subst powr_le_cancel_iff) simp_all
  then have "(2::real) powr (- real n) \<le> 1" by simp
  also have "\<dots> < overflow_threshold" by (simp add: overflow_threshold_def)
  finally have small: "\<not> overflow_threshold \<le> \<bar>(2::real) powr (- real n)\<bar>" by simp
  have "(2::real) powr (- 1022) \<le> 2 powr (- real n)"
    using assms by (subst powr_le_cancel_iff) simp_all
  then have normal: "\<not> \<bar>(2::real) powr (- real n)\<bar> < 2 powr (- 1022)" by simp
  have "- real n = of_int (- int n)" by simp
  then have f: "\<lfloor>- real n\<rfloor> = - int n" by (simp only: floor_of_int)
  have e: "ulp_exponent (2 powr (- real n)) = - int n - 52"
    using normal f by (simp add: ulp_exponent_def)
  have "(2::real) powr (- real n) / 2 powr of_int (- int n - 52) = 2 powr 52"
    by (simp add: powr_diff [symmetric])
  also have "\<dots> = of_int (2 ^ 52)" by simp
  finally have q: "round_half_even ((2::real) powr (- real n) / 2 powr of_int (- int n - 52)) = 2 ^ 52"
    by (simp only: round_half_even_of_int)
  have "of_int (2 ^ 52) * 2 powr of_int (- int n - 52) = (2::real) powr 52 * 2 powr (- real n - 52)"
    by simp
  also have "\<dots> = 2 powr (52 + (- real n - 52))" by (simp only: powr_add)
  also have "\<dots> = 2 powr (- real n)" by simp
  finally have "to_double (2 powr (- real n)) = Num (2 powr (- real n))"
    using small e q by (simp add: to_double_def)
  then show ?thesis by (simp only: x)
qed

lemma is_distance_to_double: "0 \<le> x \<Longrightarrow> is_distance (to_double x)"
  using to_double_cases [of x] by (auto simp: is_distance_def)

lemma is_distance_nonneg: "is_distance d \<Longrightarrow> nonneg_or_infinity d"
  by (auto simp: is_distance_def)

lemma is_distance_zero [simp]: "is_distance (Num 0)"
  unfolding is_distance_def by (rule disjI2, rule exI [of _ 0]) simp

lemma is_distance_Infinity [simp]: "is_distance Infinity"
  by (simp add: is_distance_def)

lemma is_distance_pow2: "is_distance (js_pow2 (to_double x))"
proof -
  consider "to_double x = Infinity" | "to_double x = NegInfinity"
    | r where "to_double x = Num r"
    using to_double_cases [of x] by blast
  then show ?thesis
    by cases (simp_all add: is_distance_to_double)
qed

lemma is_distance_plus: "is_distance a \<Longrightarrow> is_distance b \<Longrightarrow> is_distance (js_plus a b)"
proof -
  assume a: "is_distance a" and b: "is_distance b"
  show ?thesis
  proof (cases "a = Infinity \<or> b = Infinity")
    case True
    then show ?thesis using a b by (cases a; cases b) (auto simp: is_distance_def)
  next
    case False
    then obtain i j :: int where "0 \<le> i" "a = Num (of_int i * 2 powr (- 1074))"
      "0 \<le> j" "b = Num (of_int j * 2 powr (- 1074))"
      using a b by (auto simp: is_distance_def)
    then show ?thesis by (simp add: is_distance_to_double)
  qed
qed

lemma is_distance_sqrt: "is_distance a \<Longrightarrow> is_distance (js_sqrt a)"
proof -
  assume a: "is_distance a"
  show ?thesis
  proof (cases "a = Infinity")
    case True
    then show ?thesis by simp
  next
    case False
    then obtain i :: int where i: "0 \<le> i" "a = Num (of_int i * 2 powr (- 1074))"
      using a by (auto simp: is_distance_def)
    have "0 \<le> of_int i * (2::real) powr (- 1074)" using i(1) by simp
    then show ?thesis using i(2) by (simp add: is_distance_to_double not_less [symmetric])
  qed
qed

subsection \<open>Euclidean distance\<close>

lemma js_plus_NaN [simp]: "js_plus x NaN = NaN"
  by (cases x) simp_all

lemma euclideanDistance_loop_is_distance:
  "length a \<le> length b \<Longrightarrow> is_distance acc \<Longrightarrow>
   is_distance (euclideanDistance_loop a b n acc)"
proof (induction a b n acc rule: euclideanDistance_loop.induct)
  case (1 a b n acc)
  show ?case
  proof (cases "n < length a")
    case True
    then have "is_distance (js_plus acc (js_pow2 (js_minus (js_index a n) (js_index b n))))"
      using "1.prems" by (simp add: js_index_def is_distance_plus is_distance_pow2)
    then show ?thesis
      using True "1.IH" "1.prems"(1) by (subst euclideanDistance_loop.simps) simp
  next
    case False
    then show ?thesis using "1.prems"(2) by (subst euclideanDistance_loop.simps) simp
  qed
qed

lemma euclideanDistance_is_distance:
  "length a \<le> length b \<Longrightarrow> is_distance (euclideanDistance a b)"
  by (simp add: euclideanDistance_def is_distance_sqrt euclideanDistance_loop_is_distance)

lemma euclideanDistance_loop_take:
  "length a \<le> length b \<Longrightarrow>
   euclideanDistance_loop a (take (length a) b) n acc = euclideanDistance_loop a b n acc"
proof (induction a b n acc rule: euclideanDistance_loop.induct)
  case (1 a b n acc)
  show ?case
  proof (cases "n < length a")
    case True
    then have i: "js_index (take (length a) b) n = js_index b n"
      using "1.prems" by (simp add: js_index_def)
    show ?thesis
      using True "1.IH" "1.prems" i
      by (subst euclideanDistance_loop.simps, subst (2) euclideanDistance_loop.simps) simp
  next
    case False
    then show ?thesis
      by (subst euclideanDistance_loop.simps, subst (2) euclideanDistance_loop.simps) simp
  qed
qed

lemma euclideanDistance_loop_NaN:
  "euclideanDistance_loop a b n NaN = NaN"
proof (induction a b n "NaN" rule: euclideanDistance_loop.induct)
  case (1 a b n)
  then show ?case by (subst euclideanDistance_loop.simps) simp
qed

lemma euclideanDistance_loop_longer:
  "length b < length a \<Longrightarrow> n \<le> length b \<Longrightarrow> euclideanDistance_loop a b n acc = NaN"
proof (induction a b n acc rule: euclideanDistance_loop.induct)
  case (1 a b n acc)
  show ?case
  proof (cases "n = length b")
    case True
    then show ?thesis using "1.prems"
      by (subst euclideanDistance_loop.simps) (simp add: js_index_def euclideanDistance_loop_NaN)
  next
    case False
    then show ?thesis using "1.prems" "1.IH"
      by (subst euclideanDistance_loop.simps) simp
  qed
qed

lemma euclideanDistance_loop_same:
  "b = a \<Longrightarrow> acc = Num 0 \<Longrightarrow> euclideanDistance_loop a b n acc = Num 0"
proof (induction a b n acc rule: euclideanDistance_loop.induct)
  case (1 a b n acc)
  then show ?case by (subst euclideanDistance_loop.simps) (simp add: js_index_def)
qed

lemma euclideanDistance_same: "euclideanDistance a a = Num 0"
  by (simp add: euclideanDistance_def euclideanDistance_loop_same)

text \<open>
  Claim C3, as amended. \<open>euclideanDistance\<close> raises no error on vectors of unequal length.
  When the cached vector \<open>a\<close> is shorter than the query vector \<open>b\<close>, the components of \<open>b\<close>
  beyond the length of \<open>a\<close> are ignored: the result is that for \<open>a\<close> and \<open>b\<close> cut to the
  length of \<open>a\<close>, a number that is not negative, or \<open>Infinity\<close>. When \<open>a\<close> is longer, the
  result is \<open>NaN\<close>.
\<close>

theorem euclideanDistance_unequal_lengths:
  "(length a < length b \<longrightarrow>
      euclideanDistance a b = euclideanDistance a (take (length a) b) \<and>
      nonneg_or_infinity (euclideanDistance a b)) \<and>
   (length b < length a \<longrightarrow> euclideanDistance a b = NaN)"
proof -
  have "length a < length b \<Longrightarrow> euclideanDistance a b = euclideanDistance a (take (length a) b)"
    by (simp add: euclideanDistance_def euclideanDistance_loop_take)
  moreover have "length a < length b \<Longrightarrow> nonneg_or_infinity (euclideanDistance a b)"
    by (simp add: euclideanDistance_is_distance is_distance_nonneg)
  moreover have "length b < length a \<Longrightarrow> euclideanDistance a b = NaN"
    by (simp add: euclideanDistance_def euclideanDistance_loop_longer)
  ultimately show ?thesis by blast
qed

text \<open>Against claim C3 as stated: a query with one more component than the cached vector is
  cut without notice, and the distance is an ordinary number.\<close>

theorem euclideanDistance_truncates_counterexample:
  "length [1::real, 2] \<noteq> length [1::real, 2, 7] \<and> euclideanDistance [1, 2] [1, 2, 7] = Num 0"
  by (simp add: euclideanDistance_def euclideanDistance_loop.simps js_index_def)

theorem euclideanDistance_unequal_lengths_witness:
  "length [0::real] < length [0::real, 4] \<and>
   euclideanDistance [0] [0, 4] = euclideanDistance [0] (take (length [0::real]) [0, 4]) \<and>
   nonneg_or_infinity (euclideanDistance [0] [0, 4]) \<and>
   length [0::real] < length [0::real, 1] \<and> euclideanDistance [0, 1] [0] = NaN"
  using euclideanDistance_unequal_lengths [of "[0]" "[0, 4]"]
    euclideanDistance_unequal_lengths [of "[0, 1]" "[0]"]
  by auto

subsection \<open>Ranking\<close>

lemma distance_le_refl: "is_distance a \<Longrightarrow> distance_le a a"
  by (auto simp: is_distance_def)

lemma distance_le_trans: "distance_le a b \<Longrightarrow> distance_le b c \<Longrightarrow> distance_le a c"
  by (cases a; cases b; cases c) auto

lemma is_positive_js_diff:
  assumes "is_distance a" and "is_distance b"
  shows "is_positive (js_diff a b) \<longleftrightarrow> \<not> distance_le a b"
proof (cases "a = Infinity \<or> b = Infinity")
  case True
  then show ?thesis using assms by (cases a; cases b) (auto simp: is_distance_def)
next
  case False
  then obtain i j :: int where a: "a = Num (of_int i * 2 powr (- 1074))"
    and b: "b = Num (of_int j * 2 powr (- 1074))"
    using assms by (auto simp: is_distance_def)
  define g :: real where "g = 2 powr (- 1074)"
  have g: "0 < g" by (simp add: g_def)
  have d: "of_int i * g - of_int j * g = of_int (i - j) * g" by (simp add: algebra_simps)
  show ?thesis
  proof (cases "j < i")
    case True
    then have "1 \<le> i - j" by simp
    then have "(1::real) \<le> of_int (i - j)" by (simp only: of_int_1_le_iff)
    then have "g \<le> of_int (i - j) * g" using g by simp
    then have ge: "g \<le> of_int i * g - of_int j * g" by (simp only: d)
    define x where "x = of_int i * g - of_int j * g"
    have gx: "2 powr (- 1074) \<le> x" using ge by (simp add: x_def g_def)
    have "0 < x" using ge g unfolding x_def by linarith
    with gx have "to_double x = Infinity \<or> (\<exists>k::int. to_double x = Num (of_int k * 2 powr (- 1074)) \<and> 0 < k)"
      using to_double_cases [of x] g by (auto simp: g_def)
    then have "is_positive (to_double x)" by (auto simp: zero_less_mult_iff)
    then have pos: "is_positive (to_double (of_int i * g - of_int j * g))" by (simp add: x_def)
    have "\<not> of_int i * g \<le> of_int j * g" using True g by simp
    then show ?thesis using pos by (simp add: a b g_def)
  next
    case False
    then have le: "of_int i * g \<le> of_int j * g" using g by simp
    define x where "x = of_int i * g - of_int j * g"
    have "x \<le> 0" using le unfolding x_def by linarith
    then have "to_double x = NegInfinity \<or> (\<exists>k::int. to_double x = Num (of_int k * 2 powr (- 1074)) \<and> k \<le> 0)"
      using to_double_cases [of x] by auto
    then have "\<not> is_positive (to_double x)" by (auto simp: zero_less_mult_iff)
    then have "\<not> is_positive (to_double (of_int i * g - of_int j * g))" by (simp add: x_def)
    then show ?thesis using le by (simp add: a b g_def)
  qed
qed

lemma set_sort_insert [simp]: "set (sort_insert cmp x ys) = insert x (set ys)"
  by (induction ys) auto

lemma length_sort_insert [simp]: "length (sort_insert cmp x ys) = Suc (length ys)"
  by (induction ys) auto

lemma set_js_sort [simp]: "set (js_sort cmp xs) = set xs"
  by (induction xs) (auto simp: js_sort_def)

lemma length_js_sort [simp]: "length (js_sort cmp xs) = length xs"
  by (induction xs) (auto simp: js_sort_def)

lemma sorted_sort_insert:
  assumes "\<forall>y\<in>set (x # ys). is_distance (snd y)"
    and "sorted_wrt (\<lambda>p q. distance_le (snd p) (snd q)) ys"
  shows "sorted_wrt (\<lambda>p q. distance_le (snd p) (snd q)) (sort_insert by_distance x ys)"
  using assms
proof (induction ys)
  case Nil
  then show ?case by simp
next
  case (Cons y ys)
  have dx: "is_distance (snd x)" and dy: "is_distance (snd y)" using Cons.prems(1) by auto
  show ?case
  proof (cases "is_positive (by_distance x y)")
    case True
    then have "\<not> distance_le (snd x) (snd y)"
      using is_positive_js_diff [OF dx dy] by (simp add: by_distance_def)
    then have yx: "distance_le (snd y) (snd x)"
      using dx dy by (cases "snd x"; cases "snd y") (auto simp: is_distance_def)
    have "sorted_wrt (\<lambda>p q. distance_le (snd p) (snd q)) (sort_insert by_distance x ys)"
      using Cons by simp
    then show ?thesis using True yx Cons.prems(2) by auto
  next
    case False
    then have xy: "distance_le (snd x) (snd y)"
      using is_positive_js_diff [OF dx dy] by (simp add: by_distance_def)
    then have "\<forall>z\<in>set ys. distance_le (snd x) (snd z)"
      using Cons.prems(2) by (auto intro: distance_le_trans)
    then show ?thesis using False xy Cons.prems(2) by simp
  qed
qed

lemma sorted_js_sort:
  "\<forall>y\<in>set xs. is_distance (snd y) \<Longrightarrow>
   sorted_wrt (\<lambda>p q. distance_le (snd p) (snd q)) (js_sort by_distance xs)"
proof (induction xs)
  case Nil
  then show ?case by (simp add: js_sort_def)
next
  case (Cons x xs)
  then have "sorted_wrt (\<lambda>p q. distance_le (snd p) (snd q)) (js_sort by_distance xs)" by simp
  moreover have "\<forall>y\<in>set (x # js_sort by_distance xs). is_distance (snd y)"
    using Cons.prems by simp
  ultimately have "sorted_wrt (\<lambda>p q. distance_le (snd p) (snd q))
      (sort_insert by_distance x (js_sort by_distance xs))"
    by (rule sorted_sort_insert [rotated])
  then show ?case by (simp add: js_sort_def)
qed

lemma distances_valid:
  assumes "\<forall>file\<in>set dartFiles. \<exists>entry a. map_of c file = Some entry \<and>
             embedding entry = Some a \<and> length a = length q"
  shows "distances (JsObject c) q dartFiles =
         Inr (map (\<lambda>file. (file, euclideanDistance (the (embedding (the (map_of c file)))) q))
                dartFiles)"
  using assms
proof (induction dartFiles)
  case Nil
  then show ?case by simp
next
  case (Cons f fs)
  then obtain entry a where "map_of c f = Some entry" "embedding entry = Some a"
    by auto
  then show ?case using Cons by simp
qed


text \<open>
  Claim C7, as amended. When every listed file has a cache entry whose vector has the
  dimension of the query vector, the vector of one listed file equals the query vector, and
  the computed distance of no other listed file is 0, the ranking places that file first,
  with distance 0.
\<close>

theorem exact_match_ranked_first:
  assumes valid: "\<forall>file\<in>set dartFiles. \<exists>entry a. map_of c file = Some entry \<and>
             embedding entry = Some a \<and> length a = length q"
    and mem: "file0 \<in> set dartFiles"
    and exact: "embedding (the (map_of c file0)) = Some q"
    and others: "\<forall>file\<in>set dartFiles. file \<noteq> file0 \<longrightarrow>
             euclideanDistance (the (embedding (the (map_of c file)))) q \<noteq> Num 0"
  shows "\<exists>ds rest. distances (JsObject c) q dartFiles = Inr ds \<and>
           closest5 ds = (file0, Num 0) # rest"
proof -
  define d where "d = (\<lambda>file. euclideanDistance (the (embedding (the (map_of c file)))) q)"
  define ds where "ds = map (\<lambda>file. (file, d file)) dartFiles"
  have dist: "distances (JsObject c) q dartFiles = Inr ds"
    using distances_valid [OF valid] by (simp add: ds_def d_def)
  have good: "is_distance (d g)" if g: "g \<in> set dartFiles" for g
  proof -
    obtain entry a where "map_of c g = Some entry" "embedding entry = Some a"
      "length a = length q"
      using valid g by blast
    then show ?thesis by (simp add: d_def euclideanDistance_is_distance)
  qed
  have d0: "d file0 = Num 0" using exact by (simp add: d_def euclideanDistance_same)
  have ne: "ds \<noteq> []" using mem by (auto simp: ds_def)
  have "js_sort by_distance ds \<noteq> []"
  proof
    assume "js_sort by_distance ds = []"
    then have "set (js_sort by_distance ds) = {}" by simp
    then show False using ne by simp
  qed
  then obtain h rest where h: "js_sort by_distance ds = h # rest"
    by (cases "js_sort by_distance ds") auto
  have "h \<in> set ds" using h set_js_sort [of by_distance ds] by auto
  then obtain f where f: "f \<in> set dartFiles" "h = (f, d f)" by (auto simp: ds_def)
  have "\<forall>y\<in>set ds. is_distance (snd y)" using good by (auto simp: ds_def)
  then have "sorted_wrt (\<lambda>p q. distance_le (snd p) (snd q)) (h # rest)"
    using sorted_js_sort [of ds] h by simp
  then have least: "\<forall>z\<in>set rest. distance_le (snd h) (snd z)" by simp
  have "(file0, d file0) \<in> set (h # rest)"
    using mem h set_js_sort [of by_distance ds] by (auto simp: ds_def)
  then have "(file0, Num 0) = h \<or> (file0, Num 0) \<in> set rest" using d0 by auto
  then have le0: "distance_le (d f) (Num 0)"
  proof
    assume "(file0, Num 0) = h"
    then have "d f = Num 0" using f(2) by auto
    then show ?thesis by simp
  next
    assume "(file0, Num 0) \<in> set rest"
    then have "distance_le (snd h) (snd (file0, Num 0))" using least by blast
    then show ?thesis using f(2) by simp
  qed
  have "nonneg_or_infinity (d f)" using good [OF f(1)] by (rule is_distance_nonneg)
  then have "d f = Num 0" using le0 by (cases "d f") auto
  then have "f = file0" using others f(1) by (auto simp: d_def)
  then have "closest5 ds = (file0, Num 0) # take 4 rest"
    using h f(2) d0 by (simp add: closest5_def)
  with dist show ?thesis by blast
qed

subsection \<open>Rankings that overflow or underflow, and examples\<close>

lemma to_double_one [simp]: "to_double 1 = Num 1"
  using to_double_power2 [of 0] by simp

lemma to_double_huge [simp]: "to_double huge = Num huge"
  unfolding huge_def by (rule to_double_power2) simp

lemma to_double_huge_squared [simp]: "to_double (huge\<^sup>2) = Infinity"
proof -
  have "huge\<^sup>2 = 2 ^ 1200" by (simp add: huge_def)
  moreover have "overflow_threshold \<le> 2 ^ 1200" by (simp add: overflow_threshold_def)
  ultimately show ?thesis by (simp add: to_double_def)
qed

lemma to_double_tiny [simp]: "to_double tiny = Num tiny"
  unfolding tiny_def by (rule to_double_power2_minus) simp

lemma tiny_nonzero: "tiny \<noteq> 0"
  by (simp add: tiny_def)

lemma to_double_tiny_squared [simp]: "to_double (tiny\<^sup>2) = Num 0"
proof -
  have "tiny\<^sup>2 = 2 powr (- 1200)"
    by (simp add: tiny_def powr_minus power_divide field_simps)
  moreover have "(2::real) powr (- 1200) < 2 powr (- 1075)"
    by (subst powr_less_cancel_iff) simp_all
  ultimately show ?thesis by (intro to_double_underflow) simp
qed


lemma euclideanDistance_tiny: "euclideanDistance [tiny] [0] = Num 0"
  by (simp add: euclideanDistance_def euclideanDistance_loop.simps js_index_def)



theorem exact_match_ranked_first_witness:
  "lit ''/a.dart'' \<in> set [lit ''/b.dart'', lit ''/a.dart''] \<and>
   (\<exists>ds rest. distances (JsObject [(lit ''/a.dart'', \<lparr>codehash = None, embedding = Some [0]\<rparr>),
                         (lit ''/b.dart'', \<lparr>codehash = None, embedding = Some [1]\<rparr>)]) [0]
                 [lit ''/b.dart'', lit ''/a.dart''] = Inr ds \<and>
              closest5 ds = (lit ''/a.dart'', Num 0) # rest)"
proof -
  let ?c = "[(lit ''/a.dart'', \<lparr>codehash = None, embedding = Some [0]\<rparr>),
             (lit ''/b.dart'', \<lparr>codehash = None, embedding = Some [1::real]\<rparr>)]"
  let ?fs = "[lit ''/b.dart'', lit ''/a.dart'']"
  have valid: "\<forall>file\<in>set ?fs. \<exists>entry a. map_of ?c file = Some entry \<and>
                 embedding entry = Some a \<and> length a = length [0::real]"
    by (simp add: lit_def)
  have mem: "lit ''/a.dart'' \<in> set ?fs" by simp
  have exact: "embedding (the (map_of ?c (lit ''/a.dart''))) = Some [0]" by simp
  have "euclideanDistance [1] [0] = Num 1"
    by (simp add: euclideanDistance_def euclideanDistance_loop.simps js_index_def)
  then have others: "\<forall>file\<in>set ?fs. file \<noteq> lit ''/a.dart'' \<longrightarrow>
                  euclideanDistance (the (embedding (the (map_of ?c file)))) [0] \<noteq> Num 0"
    by (simp add: lit_def)
  from exact_match_ranked_first [OF valid mem exact others] mem show ?thesis
    by blast
qed

text \<open>Against claim C7 as stated. In the first ranking the vector of \<open>/b.dart\<close> alone equals
  the query \<open>[1, 2]\<close>, but the shorter vector \<open>[1]\<close> of \<open>/a.dart\<close> is at distance 0 as well. In
  the second the vector of \<open>/b.dart\<close> alone equals the query \<open>[0]\<close>, but the square of \<open>tiny\<close>
  underflows and \<open>/a.dart\<close> is at distance 0 as well. In both \<open>/a.dart\<close>, listed first, is
  ranked first.\<close>

theorem exact_match_counterexample:
  "distances (JsObject [(lit ''/a.dart'', \<lparr>codehash = None, embedding = Some [1]\<rparr>),
                        (lit ''/b.dart'', \<lparr>codehash = None, embedding = Some [1, 2]\<rparr>)]) [1, 2]
     [lit ''/a.dart'', lit ''/b.dart''] =
     Inr [(lit ''/a.dart'', Num 0), (lit ''/b.dart'', Num 0)] \<and>
   distances (JsObject [(lit ''/a.dart'', \<lparr>codehash = None, embedding = Some [tiny]\<rparr>),
                        (lit ''/b.dart'', \<lparr>codehash = None, embedding = Some [0]\<rparr>)]) [0]
     [lit ''/a.dart'', lit ''/b.dart''] =
     Inr [(lit ''/a.dart'', Num 0), (lit ''/b.dart'', Num 0)] \<and>
   closest5 [(lit ''/a.dart'', Num 0), (lit ''/b.dart'', Num 0)] =
     [(lit ''/a.dart'', Num 0), (lit ''/b.dart'', Num 0)]"
  by (simp add: lit_def euclideanDistance_tiny euclideanDistance_same closest5_def js_sort_def
      by_distance_def)
    (simp add: euclideanDistance_def euclideanDistance_loop.simps js_index_def)

subsection \<open>The state\<close>

lemma codehashCache_emit [simp]: "codehashCache (emit e s) = codehashCache s"
  by (simp add: emit_def)

lemma apiKey_emit [simp]: "apiKey (emit e s) = apiKey s"
  by (simp add: emit_def)

lemma trace_emit [simp]: "trace (emit e s) = trace s @ [e]"
  by (simp add: emit_def)

lemma set_timer_events:
  "set (timer_events evs n) = set evs \<union> insert Timeout
     (if OperationCompleted \<in> set (take n evs) then {} else {DisplayFetchingFileLoader})"
proof -
  have "set evs = set (take n evs) \<union> set (drop n evs)"
    by (metis append_take_drop_id set_append)
  then show ?thesis by (auto simp: timer_events_def)
qed

lemma findClosestDartFiles_fst:
  "fst (findClosestDartFiles env query s) =
   fst (findClosestDartFiles_try env query (s\<lparr>trace := []\<rparr>))"
  by (cases "findClosestDartFiles_try env query (s\<lparr>trace := []\<rparr>)" rule: prod.exhaust)
     (auto simp: findClosestDartFiles_def findClosestDartFiles_catch_def split: sum.splits)

subsection \<open>Facts about the example environment\<close>

lemmas call_defs = findClosestDartFiles_def findClosestDartFiles_catch_def
  findClosestDartFiles_try_def retrieve_def
  rank_files_def loadCache_def loadCache_try_def saveCache_def saveCache_try_def handleError_def
  cacheFilePath_def read_file_def filesToUpdate_def needs_update_def process_batch_def
  batches.simps emit_def truthy_def Let_def js_index_def timer_events_def

lemma example_env_fields:
  "workspaceFolders example_env = Some [lit ''/w'']"
  "tmpdir example_env = lit ''/tmp''"
  "sha256_hex example_env t = t"
  "existsSync example_env p = False"
  "readFile example_env p = Inl (Error ''ENOENT'')"
  "JSON_parse example_env d = Inl (Error ''Unexpected token'')"
  "JSON_stringify example_env cv = []"
  "writeFile example_env p d = None"
  "findFiles example_env = Inr [lit ''/w/a.dart'']"
  "openTextDocument example_env f = Inr (lit ''x'')"
  "asRelativePath example_env f = drop 3 f"
  "batchEmbedContents example_env i requests = Inr (map (\<lambda>t. [0]) requests)"
  "embedContent example_env q = Inr [0]"
  "timer_fires_after example_env = 100"
  by (simp_all add: example_env_def)

lemma lit_key: "lit ''key'' \<noteq> []"
  by (simp add: lit_def)

lemma example_paths:
  "split_slash_pop (lit ''/w/a.dart'') = lit ''a.dart''"
  "drop 3 (lit ''/w/a.dart'') = lit ''a.dart''"
  by (simp_all add: split_slash_pop_def lit_def)

lemma example_read_file:
  "promise_all (map (read_file example_env) [lit ''/w/a.dart'']) =
   Inr [\<lparr>fc_text = render_text (lit ''a.dart'') (lit ''a.dart'') (lit ''x''),
         fc_path = lit ''/w/a.dart'',
         fc_codehash = computeCodehash example_env
           (render_text (lit ''a.dart'') (lit ''a.dart'') (lit ''x''))\<rparr>]"
  by (simp add: read_file_def example_env_fields example_paths Let_def)

lemma example_hash_not_stale:
  "computeCodehash example_env (render_text (lit ''a.dart'') (lit ''a.dart'') (lit ''x'')) \<noteq>
   lit ''stale''"
  by (simp add: computeCodehash_def render_text_def example_env_fields lit_def is_space_def)

lemma computeCodehash_cong:
  "sha256_hex env' = sha256_hex env \<Longrightarrow> computeCodehash env' = computeCodehash env"
  by (rule ext) (simp add: computeCodehash_def)

subsection \<open>The missing API key\<close>




subsection \<open>Loading the cache\<close>



lemma example_cacheFilePath:
  "cacheFilePath example_env = Inr (lit ''/tmp/flutterGPT//w.codehashCache.json'')"
  by (simp add: cacheFilePath_def computeCodehash_def example_env_def lit_def is_space_def)



subsection \<open>The parts of a call\<close>

lemma batch_requests_append [simp]:
  "batch_requests (xs @ ys) = batch_requests xs @ batch_requests ys"
  by (induction xs rule: batch_requests.induct) auto

lemma batch_requests_OpenTextDocument [simp]:
  "batch_requests (map OpenTextDocument fs) = []"
  by (induction fs) auto

lemma batch_requests_timer_events [simp]:
  "batch_requests (timer_events evs n) = batch_requests evs"
proof -
  have "batch_requests (take n evs) @ batch_requests (drop n evs) = batch_requests evs"
    by (metis append_take_drop_id batch_requests_append)
  then show ?thesis by (simp add: timer_events_def)
qed

lemma loadCache_trace_independent:
  "codehashCache (loadCache env (s\<lparr>trace := t\<rparr>)) = codehashCache (loadCache env s) \<and>
   apiKey (loadCache env (s\<lparr>trace := t\<rparr>)) = apiKey (loadCache env s)"
  by (auto simp: loadCache_def loadCache_try_def Let_def emit_def split: sum.splits)


lemma codehashCache_saveCache: "codehashCache (snd (saveCache env s)) = codehashCache s"
  by (auto simp: saveCache_def saveCache_try_def handleError_def Let_def
      split: sum.splits option.splits)



lemma codehashCache_rank_files:
  "codehashCache (snd (rank_files env query dartFiles fileContents s)) = codehashCache s"
  by (simp add: rank_files_def Let_def split: sum.splits)





lemma process_batch_trace_independent:
  "codehashCache s = codehashCache s' \<Longrightarrow>
   codehashCache (process_batch env i batch s) = codehashCache (process_batch env i batch s')"
  by (auto simp: process_batch_def Let_def split: sum.splits prod.splits option.splits)

lemma process_batches_trace_independent:
  "codehashCache s = codehashCache s' \<Longrightarrow>
   codehashCache (process_batches env i bs s) = codehashCache (process_batches env i bs s')"
proof (induction bs arbitrary: i s s')
  case Nil
  then show ?case by simp
next
  case (Cons b bs)
  show ?case
    using Cons.IH [OF process_batch_trace_independent [OF Cons.prems]] by simp
qed

lemma concat_batches: "concat (batches xs) = xs"
proof (induction xs rule: batches.induct)
  case (1 xs)
  show ?case
  proof (cases "xs = []")
    case True
    then show ?thesis by (simp add: batches.simps)
  next
    case False
    then show ?thesis using 1 by (subst batches.simps) simp
  qed
qed

lemma promise_all_read_file:
  assumes "promise_all (map (read_file env) files) = Inr fcs"
  shows "map fc_path fcs = files \<and>
         (\<forall>fc\<in>set fcs. \<exists>doc. openTextDocument env (fc_path fc) = Inr doc \<and>
            fc_text fc = render_text (split_slash_pop (fc_path fc))
                           (asRelativePath env (fc_path fc)) doc \<and>
            fc_codehash fc = computeCodehash env (fc_text fc))"
  using assms
proof (induction files arbitrary: fcs)
  case Nil
  then show ?case by simp
next
  case (Cons f fs)
  then obtain fc rest where fc: "read_file env f = Inr fc"
    and rest: "promise_all (map (read_file env) fs) = Inr rest" and fcs: "fcs = fc # rest"
    by (cases "read_file env f"; cases "promise_all (map (read_file env) fs)") auto
  obtain doc where "openTextDocument env f = Inr doc"
    "fc = \<lparr>fc_text = render_text (split_slash_pop f) (asRelativePath env f) doc, fc_path = f,
           fc_codehash = computeCodehash env (render_text (split_slash_pop f) (asRelativePath env f) doc)\<rparr>"
    using fc by (cases "openTextDocument env f") (auto simp: read_file_def Let_def)
  then show ?case using Cons.IH [OF rest] fcs by auto
qed

text \<open>What \<open>retrieve\<close> does once the files are listed and read and the filter has run.\<close>

lemma retrieve_listed:
  assumes "findFiles env = Inr dartFiles"
    and "promise_all (map (read_file env) dartFiles) = Inr fileContents"
    and "filesToUpdate (codehashCache s) fileContents = Inr toUpdate"
  shows "\<exists>s2. codehashCache s2 = codehashCache s \<and> apiKey s2 = apiKey s \<and>
           trace s2 = trace s @ FindFiles # map OpenTextDocument dartFiles \<and>
           retrieve env query s =
             (case saveCache env (process_batches env 0 (batches toUpdate) s2) of
                (Inl error, s4) \<Rightarrow> (Inl error, s4)
              | (Inr u, s4) \<Rightarrow>
                  rank_files env query dartFiles fileContents (emit OperationCompleted s4))"
proof -
  define s2 where "s2 = (emit FindFiles s)\<lparr>trace := trace (emit FindFiles s) @ map OpenTextDocument dartFiles\<rparr>"
  have "codehashCache s2 = codehashCache s" "apiKey s2 = apiKey s"
    "trace s2 = trace s @ FindFiles # map OpenTextDocument dartFiles"
    by (simp_all add: s2_def)
  moreover have "retrieve env query s =
             (case saveCache env (process_batches env 0 (batches toUpdate) s2) of
                (Inl error, s4) \<Rightarrow> (Inl error, s4)
              | (Inr u, s4) \<Rightarrow>
                  rank_files env query dartFiles fileContents (emit OperationCompleted s4))"
    using assms by (simp add: retrieve_def Let_def s2_def)
  ultimately show ?thesis by blast
qed

lemma codehashCache_retrieve:
  assumes "findFiles env = Inr dartFiles"
    and "promise_all (map (read_file env) dartFiles) = Inr fileContents"
    and "filesToUpdate (codehashCache s) fileContents = Inr toUpdate"
  shows "\<exists>s2. codehashCache s2 = codehashCache s \<and> apiKey s2 = apiKey s \<and>
           codehashCache (snd (retrieve env query s)) =
           codehashCache (process_batches env 0 (batches toUpdate) s2)"
proof -
  obtain s2 where s2: "codehashCache s2 = codehashCache s" "apiKey s2 = apiKey s"
    and r: "retrieve env query s =
             (case saveCache env (process_batches env 0 (batches toUpdate) s2) of
                (Inl error, s4) \<Rightarrow> (Inl error, s4)
              | (Inr u, s4) \<Rightarrow>
                  rank_files env query dartFiles fileContents (emit OperationCompleted s4))"
    using retrieve_listed [OF assms] by blast
  define s3 where "s3 = process_batches env 0 (batches toUpdate) s2"
  obtain r4 s4 where s4: "saveCache env s3 = (r4, s4)" by (cases "saveCache env s3")
  have c4: "codehashCache s4 = codehashCache s3"
    using codehashCache_saveCache [of env s3] s4 by simp
  have "codehashCache (snd (retrieve env query s)) = codehashCache s3"
    using r s4 c4 by (cases r4) (simp_all add: s3_def [symmetric] codehashCache_rank_files)
  then show ?thesis using s2 by (auto simp: s3_def)
qed

lemma codehashCache_retrieve_unlisted:
  assumes "\<not> (\<exists>dartFiles fileContents toUpdate. findFiles env = Inr dartFiles \<and>
              promise_all (map (read_file env) dartFiles) = Inr fileContents \<and>
              filesToUpdate (codehashCache s) fileContents = Inr toUpdate)"
  shows "codehashCache (snd (retrieve env query s)) = codehashCache s"
  using assms by (auto simp: retrieve_def Let_def split: sum.splits)


text \<open>The state of a call after its \<open>try\<close> block, and the state it leaves.\<close>

lemma findClosestDartFiles_snd:
  "codehashCache (snd (findClosestDartFiles env query s)) =
     codehashCache (snd (findClosestDartFiles_try env query (s\<lparr>trace := []\<rparr>))) \<and>
   apiKey (snd (findClosestDartFiles env query s)) =
     apiKey (snd (findClosestDartFiles_try env query (s\<lparr>trace := []\<rparr>))) \<and>
   batch_requests (trace (snd (findClosestDartFiles env query s))) =
     batch_requests (trace s) @
     batch_requests (trace (snd (findClosestDartFiles_try env query (s\<lparr>trace := []\<rparr>)))) \<and>
   set (trace (snd (findClosestDartFiles_try env query (s\<lparr>trace := []\<rparr>))))
     \<subseteq> set (trace (snd (findClosestDartFiles env query s)))"
  by (cases "findClosestDartFiles_try env query (s\<lparr>trace := []\<rparr>)" rule: prod.exhaust)
     (auto simp: findClosestDartFiles_def findClosestDartFiles_catch_def set_timer_events
       split: sum.splits)

subsection \<open>Persisting the cache\<close>

lemma saveCache_write_fails:
  assumes "cacheFilePath env = Inr cachePath"
    and "writeFile env cachePath (JSON_stringify env (codehashCache s)) = Some error"
    and "instanceof_Error error"
  shows "saveCache env s =
           (Inl (Error ''Failed to save the cache data.''),
            emit (ConsoleError [] error)
              (emit (FsWriteFile cachePath (JSON_stringify env (codehashCache s))) s))"
  using assms by (simp add: saveCache_def saveCache_try_def handleError_def)

text \<open>
  Claim C2, as amended. In a call that reaches the persisting step (API key set, cache an
  object, files enumerated and read, filter run), when the write of the cache file fails with
  an \<open>Error\<close>, the failure is logged and the call fails with the error
  \<open>Failed to save the cache data.\<close>: it returns no ranked result.
\<close>

theorem saveCache_failure_propagates:
  assumes key: "truthy (apiKey s)"
    and cache: "codehashCache s = JsObject c"
    and start: "s0 = (if c = [] then loadCache env s else s)"
    and files: "findFiles env = Inr dartFiles"
    and contents: "promise_all (map (read_file env) dartFiles) = Inr fileContents"
    and diff: "filesToUpdate (codehashCache s0) fileContents = Inr toUpdate"
    and path: "cacheFilePath env = Inr cachePath"
    and wr: "writeFile env cachePath
        (JSON_stringify env (codehashCache (process_batches env 0 (batches toUpdate) s0))) =
        Some error"
    and err: "instanceof_Error error"
  shows "fst (findClosestDartFiles env query s) = Inl (Error ''Failed to save the cache data.'') \<and>
         ConsoleError [] error \<in> set (trace (snd (findClosestDartFiles env query s))) \<and>
         FsWriteFile cachePath
           (JSON_stringify env (codehashCache (process_batches env 0 (batches toUpdate) s0)))
           \<in> set (trace (snd (findClosestDartFiles env query s)))"
proof -
  define t where "t = s\<lparr>trace := []\<rparr>"
  define t0 where "t0 = (if c = [] then loadCache env t else t)"
  have c0: "codehashCache t0 = codehashCache s0"
    using loadCache_trace_independent [where env = env and s = s and t = "[]"] by (simp add: t0_def t_def start)
  have tr: "findClosestDartFiles_try env query t = retrieve env query t0"
    using key cache by (simp add: findClosestDartFiles_try_def t_def t0_def)
  have diff': "filesToUpdate (codehashCache t0) fileContents = Inr toUpdate"
    using diff c0 by simp
  obtain t2 where t2: "codehashCache t2 = codehashCache t0"
    and r: "retrieve env query t0 =
             (case saveCache env (process_batches env 0 (batches toUpdate) t2) of
                (Inl error, s4) \<Rightarrow> (Inl error, s4)
              | (Inr u, s4) \<Rightarrow>
                  rank_files env query dartFiles fileContents (emit OperationCompleted s4))"
    using retrieve_listed [OF files contents diff'] by blast
  define t3 where "t3 = process_batches env 0 (batches toUpdate) t2"
  let ?data = "JSON_stringify env (codehashCache (process_batches env 0 (batches toUpdate) s0))"
  have c3: "codehashCache t3 = codehashCache (process_batches env 0 (batches toUpdate) s0)"
    unfolding t3_def using t2 c0 by (intro process_batches_trace_independent) simp
  have "saveCache env t3 =
          (Inl (Error ''Failed to save the cache data.''),
           emit (ConsoleError [] error) (emit (FsWriteFile cachePath ?data) t3))"
    using saveCache_write_fails [OF path, of t3 error] wr err c3 by simp
  then have res: "findClosestDartFiles_try env query t =
          (Inl (Error ''Failed to save the cache data.''),
           emit (ConsoleError [] error) (emit (FsWriteFile cachePath ?data) t3))"
    using tr r by (simp add: t3_def)
  have "fst (findClosestDartFiles env query s) = Inl (Error ''Failed to save the cache data.'')"
    using res by (simp add: findClosestDartFiles_fst t_def)
  moreover have "{ConsoleError [] error, FsWriteFile cachePath ?data}
      \<subseteq> set (trace (snd (findClosestDartFiles_try env query t)))"
    using res by simp
  then have "{ConsoleError [] error, FsWriteFile cachePath ?data}
      \<subseteq> set (trace (snd (findClosestDartFiles env query s)))"
    using findClosestDartFiles_snd [of env query s] by (auto simp: t_def)
  ultimately show ?thesis by simp
qed

theorem saveCache_failure_propagates_witness:
  "findFiles (example_env\<lparr>writeFile := \<lambda>p d. Some (Error ''EACCES'')\<rparr>) = Inr [lit ''/w/a.dart''] \<and>
   fst (findClosestDartFiles (example_env\<lparr>writeFile := \<lambda>p d. Some (Error ''EACCES'')\<rparr>)
          (lit ''query'') example_repository) = Inl (Error ''Failed to save the cache data.'') \<and>
   ConsoleError [] (Error ''EACCES'')
     \<in> set (trace (snd (findClosestDartFiles
          (example_env\<lparr>writeFile := \<lambda>p d. Some (Error ''EACCES'')\<rparr>)
          (lit ''query'') example_repository)))"
proof -
  let ?env = "example_env\<lparr>writeFile := \<lambda>p d. Some (Error ''EACCES'')\<rparr>"
  let ?fc = "\<lparr>fc_text = render_text (lit ''a.dart'') (lit ''a.dart'') (lit ''x''),
         fc_path = lit ''/w/a.dart'',
         fc_codehash = computeCodehash example_env
           (render_text (lit ''a.dart'') (lit ''a.dart'') (lit ''x''))\<rparr>"
  have key: "truthy (apiKey example_repository)"
    by (simp add: example_repository_def truthy_def lit_key)
  have cache: "codehashCache example_repository = JsObject []"
    by (simp add: example_repository_def)
  have files: "findFiles ?env = Inr [lit ''/w/a.dart'']" by (simp add: example_env_fields)
  have "read_file ?env = read_file example_env"
    by (rule ext) (simp add: read_file_def computeCodehash_def Let_def split: sum.splits)
  then have contents: "promise_all (map (read_file ?env) [lit ''/w/a.dart'']) = Inr [?fc]"
    using example_read_file by simp
  have path: "cacheFilePath ?env = Inr (lit ''/tmp/flutterGPT//w.codehashCache.json'')"
    by (simp add: cacheFilePath_def computeCodehash_def example_env_def lit_def is_space_def)
  have load: "codehashCache (loadCache ?env example_repository) = JsObject []"
    using path by (simp add: loadCache_def loadCache_try_def example_env_fields
        example_repository_def Let_def)
  have diff: "filesToUpdate (codehashCache (if [] = [] then loadCache ?env example_repository
      else example_repository)) [?fc] = Inr [?fc]"
    using load by (simp add: filesToUpdate_def needs_update_def)
  have wr: "writeFile ?env (lit ''/tmp/flutterGPT//w.codehashCache.json'')
      (JSON_stringify ?env (codehashCache (process_batches ?env 0 (batches [?fc])
         (if [] = [] then loadCache ?env example_repository else example_repository)))) =
      Some (Error ''EACCES'')"
    by simp
  have err: "instanceof_Error (Error ''EACCES'')" by simp
  from saveCache_failure_propagates [OF key cache refl files contents diff path wr err,
      of "lit ''query''"] files
  show ?thesis by simp
qed

text \<open>Against claim C2 as stated: with a full disk the call does not return its ranked
  result, it fails.\<close>

theorem saveCache_failure_counterexample:
  "fst (findClosestDartFiles (example_env\<lparr>writeFile := \<lambda>p d. Some (Error ''ENOSPC'')\<rparr>)
          (lit ''query'')
          (example_repository\<lparr>codehashCache :=
             JsObject [(lit ''/w/b.dart'', \<lparr>codehash = Some [], embedding = Some [0]\<rparr>)]\<rparr>)) =
   Inl (Error ''Failed to save the cache data.'')"
  by (simp add: call_defs example_env_fields example_paths example_repository_def lit_key)

subsection \<open>The entries written by a call\<close>

lemma map_of_update_Some:
  "map_of (AList.update k v c) p = Some e \<Longrightarrow> (p = k \<and> e = v) \<or> map_of c p = Some e"
  by (auto simp: update_conv' split: if_splits)

lemma forEach_embedding_entries:
  assumes "forEach_embedding batch vs index cv = (r, JsObject c')"
    and "\<forall>j<length vs. index + j < length batch \<longrightarrow> vs ! j = emb (fc_text (batch ! (index + j)))"
    and "map_of c' p = Some e"
  shows "(\<exists>c. cv = JsObject c \<and> map_of c p = Some e) \<or>
         (\<exists>fc\<in>set batch. fc_path fc = p \<and>
            e = \<lparr>codehash = Some (fc_codehash fc), embedding = Some (emb (fc_text fc))\<rparr>)"
  using assms
proof (induction vs arbitrary: index cv)
  case Nil
  then show ?case by simp
next
  case (Cons v vs)
  show ?case
  proof (cases "index < length batch")
    case False
    then show ?thesis using Cons.prems by (simp add: js_index_def)
  next
    case True
    let ?fc = "batch ! index"
    show ?thesis
    proof (cases cv)
      case JsNull
      then show ?thesis using Cons.prems(1) True by (simp add: js_index_def)
    next
      case (JsObject c)
      let ?c1 = "AList.update (fc_path ?fc)
                   \<lparr>codehash = Some (fc_codehash ?fc), embedding = Some v\<rparr> c"
      have run: "forEach_embedding batch vs (Suc index) (JsObject ?c1) = (r, JsObject c')"
        using Cons.prems(1) True JsObject by (simp add: js_index_def)
      have v: "v = emb (fc_text ?fc)"
        using Cons.prems(2) True by fastforce
      have al: "\<forall>j<length vs. Suc index + j < length batch \<longrightarrow>
                  vs ! j = emb (fc_text (batch ! (Suc index + j)))"
      proof (intro allI impI)
        fix j assume "j < length vs" "Suc index + j < length batch"
        then show "vs ! j = emb (fc_text (batch ! (Suc index + j)))"
          using Cons.prems(2) [rule_format, of "Suc j"] by simp
      qed
      from Cons.IH [OF run al Cons.prems(3)]
      consider "map_of ?c1 p = Some e"
        | "\<exists>fc\<in>set batch. fc_path fc = p \<and>
              e = \<lparr>codehash = Some (fc_codehash fc), embedding = Some (emb (fc_text fc))\<rparr>"
        by auto
      then show ?thesis
      proof cases
        case 1
        from map_of_update_Some [OF 1] show ?thesis
          using v True nth_mem [OF True] JsObject by auto
      next
        case 2
        then show ?thesis by blast
      qed
    qed
  qed
qed

lemma process_batch_entries:
  assumes "aligned env emb"
    and "codehashCache (process_batch env i batch s) = JsObject c'"
    and "map_of c' p = Some e"
  shows "(\<exists>c. codehashCache s = JsObject c \<and> map_of c p = Some e) \<or>
         (\<exists>fc\<in>set batch. fc_path fc = p \<and>
            e = \<lparr>codehash = Some (fc_codehash fc), embedding = Some (emb (fc_text fc))\<rparr>)"
proof (cases "batchEmbedContents env i (map fc_text batch)")
  case (Inl error)
  then show ?thesis using assms(2,3) by (simp add: process_batch_def)
next
  case (Inr vs)
  obtain r cv' where f: "forEach_embedding batch vs 0 (codehashCache s) = (r, cv')"
    by (cases "forEach_embedding batch vs 0 (codehashCache s)")
  have "codehashCache (process_batch env i batch s) = cv'"
    using Inr f by (cases r) (simp_all add: process_batch_def)
  then have f': "forEach_embedding batch vs 0 (codehashCache s) = (r, JsObject c')"
    using f assms(2) by simp
  have al: "\<forall>j<length vs. 0 + j < length batch \<longrightarrow> vs ! j = emb (fc_text (batch ! (0 + j)))"
    using assms(1) Inr by (auto simp: aligned_def)
  show ?thesis
    using forEach_embedding_entries [OF f' al assms(3)] by simp
qed

lemma process_batches_entries:
  assumes "aligned env emb"
  shows "codehashCache (process_batches env i bs s) = JsObject c' \<Longrightarrow> map_of c' p = Some e \<Longrightarrow>
         (\<exists>c. codehashCache s = JsObject c \<and> map_of c p = Some e) \<or>
         (\<exists>fc\<in>set (concat bs). fc_path fc = p \<and>
            e = \<lparr>codehash = Some (fc_codehash fc), embedding = Some (emb (fc_text fc))\<rparr>)"
proof (induction bs arbitrary: i s)
  case Nil
  then show ?case by simp
next
  case (Cons b bs)
  from Cons.IH [of "Suc i" "process_batch env i b s"] Cons.prems
  consider c where "codehashCache (process_batch env i b s) = JsObject c" "map_of c p = Some e"
    | "\<exists>fc\<in>set (concat bs). fc_path fc = p \<and>
            e = \<lparr>codehash = Some (fc_codehash fc), embedding = Some (emb (fc_text fc))\<rparr>"
    by auto
  then show ?case
  proof cases
    case 1
    from process_batch_entries [OF assms 1] show ?thesis by auto
  next
    case 2
    then show ?thesis by auto
  qed
qed

lemma filesToUpdate_subset:
  "filesToUpdate cv fileContents = Inr toUpdate \<Longrightarrow> set toUpdate \<subseteq> set fileContents"
  by (cases cv) (auto simp: filesToUpdate_def split: if_splits)

text \<open>
  Claim C10. When the remote service answers in step with its requests, every cache entry
  found after a retrieval call either was in the cache the call started from (the loaded
  cache, when the in-memory cache was empty), or belongs to a file that the call has read:
  then its fingerprint is the \<open>computeCodehash\<close> of the rendered text of that file, and its
  embedding is the embedding of that same text.
\<close>

theorem cache_entry_pairs_embedding_with_fingerprint:
  assumes al: "aligned env emb"
    and after: "codehashCache (snd (findClosestDartFiles env query s)) = JsObject c'"
    and entry: "map_of c' p = Some e"
  shows "(\<exists>c0. codehashCache (if codehashCache s = JsObject [] then loadCache env s else s) =
                 JsObject c0 \<and> map_of c0 p = Some e) \<or>
         (\<exists>doc. openTextDocument env p = Inr doc \<and>
            e = \<lparr>codehash = Some (computeCodehash env
                    (render_text (split_slash_pop p) (asRelativePath env p) doc)),
                 embedding = Some (emb (render_text (split_slash_pop p) (asRelativePath env p) doc))\<rparr>)"
proof -
  define t where "t = s\<lparr>trace := []\<rparr>"
  have fin: "codehashCache (snd (findClosestDartFiles_try env query t)) = JsObject c'"
    using after findClosestDartFiles_snd [of env query s] by (simp add: t_def)
  show ?thesis
  proof (cases "truthy (apiKey s) \<and> (\<exists>c. codehashCache s = JsObject c)")
    case False
    then have "findClosestDartFiles_try env query t = (fst (findClosestDartFiles_try env query t), t)"
      by (cases "codehashCache s") (auto simp: findClosestDartFiles_try_def t_def)
    then have "codehashCache s = JsObject c'"
      using fin by (metis snd_conv t_def repository.simps(8) repository.select_convs(2)
          repository.surjective repository.update_convs(3))
    then show ?thesis using entry by (cases "c' = []") auto
  next
    case True
    then obtain c where c: "codehashCache s = JsObject c" and key: "truthy (apiKey s)" by blast
    define s0 where "s0 = (if c = [] then loadCache env s else s)"
    define t0 where "t0 = (if c = [] then loadCache env t else t)"
    have c0: "codehashCache t0 = codehashCache s0"
      using loadCache_trace_independent [where env = env and s = s and t = "[]"] by (simp add: t0_def s0_def t_def)
    have "findClosestDartFiles_try env query t = retrieve env query t0"
      using key c by (simp add: findClosestDartFiles_try_def t_def t0_def)
    then have fin': "codehashCache (snd (retrieve env query t0)) = JsObject c'"
      using fin by simp
    have start: "(if codehashCache s = JsObject [] then loadCache env s else s) = s0"
      using c by (simp add: s0_def)
    show ?thesis
    proof (cases "\<exists>dartFiles fileContents toUpdate. findFiles env = Inr dartFiles \<and>
                promise_all (map (read_file env) dartFiles) = Inr fileContents \<and>
                filesToUpdate (codehashCache t0) fileContents = Inr toUpdate")
      case False
      from codehashCache_retrieve_unlisted [OF False, of query] fin' c0
      have "codehashCache s0 = JsObject c'" by simp
      then show ?thesis using entry by (simp add: start)
    next
      case True
      then obtain dartFiles fileContents toUpdate where l: "findFiles env = Inr dartFiles"
        "promise_all (map (read_file env) dartFiles) = Inr fileContents"
        "filesToUpdate (codehashCache t0) fileContents = Inr toUpdate"
        by blast
      from codehashCache_retrieve [OF l, of query]
      obtain t2 where t2: "codehashCache t2 = codehashCache t0"
        "codehashCache (snd (retrieve env query t0)) =
             codehashCache (process_batches env 0 (batches toUpdate) t2)"
        by blast
      have "codehashCache (process_batches env 0 (batches toUpdate) t2) = JsObject c'"
        using fin' t2(2) by simp
      from process_batches_entries [OF al this entry]
      consider c1 where "codehashCache s0 = JsObject c1" "map_of c1 p = Some e"
        | fc where "fc \<in> set fileContents" "fc_path fc = p"
            "e = \<lparr>codehash = Some (fc_codehash fc), embedding = Some (emb (fc_text fc))\<rparr>"
        using t2(1) c0 filesToUpdate_subset [OF l(3)] by (auto simp: concat_batches)
      then show ?thesis
      proof cases
        case 1
        then show ?thesis by (simp add: start)
      next
        case 2
        from promise_all_read_file [OF l(2)] 2(1)
        obtain doc where "openTextDocument env (fc_path fc) = Inr doc"
          "fc_text fc = render_text (split_slash_pop (fc_path fc))
                             (asRelativePath env (fc_path fc)) doc"
          "fc_codehash fc = computeCodehash env (fc_text fc)"
          by blast
        then show ?thesis using 2(2,3) by auto
      qed
    qed
  qed
qed

subsection \<open>A second call\<close>








lemma filesToUpdate_Nil [simp]: "filesToUpdate cv [] = Inr []"
  by (cases cv) (simp_all add: filesToUpdate_def)


subsection \<open>The example workspace, called twice\<close>

lemma example_first_call:
  "codehashCache (snd (findClosestDartFiles example_env (lit ''query'') example_repository)) =
     JsObject [(lit ''/w/a.dart'',
       \<lparr>codehash = Some (computeCodehash example_env
           (render_text (lit ''a.dart'') (lit ''a.dart'') (lit ''x''))),
        embedding = Some [0]\<rparr>)] \<and>
   batch_requests (trace (snd (findClosestDartFiles example_env (lit ''query'')
     example_repository))) = [[render_text (lit ''a.dart'') (lit ''a.dart'') (lit ''x'')]]"
  by (simp add: call_defs example_env_fields example_paths example_repository_def lit_key)

theorem cache_entry_pairs_embedding_with_fingerprint_witness:
  "aligned example_env (\<lambda>text. [0]) \<and>
   (\<exists>doc. openTextDocument example_env (lit ''/w/a.dart'') = Inr doc \<and>
      codehashCache (snd (findClosestDartFiles example_env (lit ''query'') example_repository)) =
      JsObject [(lit ''/w/a.dart'',
        \<lparr>codehash = Some (computeCodehash example_env
               (render_text (lit ''a.dart'') (lit ''a.dart'') doc)),
         embedding = Some [0]\<rparr>)])"
proof -
  let ?e = "\<lparr>codehash = Some (computeCodehash example_env
               (render_text (lit ''a.dart'') (lit ''a.dart'') (lit ''x''))),
            embedding = Some [0::real]\<rparr>"
  have al: "aligned example_env (\<lambda>text. [0])"
    by (auto simp: aligned_def example_env_fields)
  have after: "codehashCache (snd (findClosestDartFiles example_env (lit ''query'')
        example_repository)) = JsObject [(lit ''/w/a.dart'', ?e)]"
    by (simp add: example_first_call)
  have entry: "map_of [(lit ''/w/a.dart'', ?e)] (lit ''/w/a.dart'') = Some ?e" by simp
  have start: "codehashCache (if codehashCache example_repository = JsObject []
      then loadCache example_env example_repository else example_repository) = JsObject []"
    by (simp add: example_repository_def example_env_fields loadCache_def loadCache_try_def
        cacheFilePath_def Let_def)
  from cache_entry_pairs_embedding_with_fingerprint [OF al after entry] start al after
  show ?thesis
    by (simp add: example_env_fields)
qed


subsection \<open>A failed batch\<close>

lemma process_batch_failed:
  "batchEmbedContents env i (map fc_text batch) = Inl error \<Longrightarrow>
   codehashCache (process_batch env i batch s) = codehashCache s"
  by (simp add: process_batch_def)

text \<open>
  Claim C1, where the code departs from it. The one batch of the call fails. With no earlier
  cache entry for its file, the ranking does not leave the file out: reading the embedding
  of the missing entry throws a \<open>TypeError\<close> and the call fails. With an earlier entry of
  another fingerprint, the file is ranked by the stale vector of that entry and its text is
  returned.
\<close>

theorem failed_batch_breaks_ranking:
  "fst (findClosestDartFiles
          (example_env\<lparr>batchEmbedContents := \<lambda>i requests. Inl (Error ''503'')\<rparr>)
          (lit ''query'') example_repository) =
     Inl (TypeError ''Cannot read properties of undefined (reading embedding)'') \<and>
   fst (findClosestDartFiles
          (example_env\<lparr>batchEmbedContents := \<lambda>i requests. Inl (Error ''503'')\<rparr>)
          (lit ''query'')
          (example_repository\<lparr>codehashCache :=
             JsObject [(lit ''/w/a.dart'',
               \<lparr>codehash = Some (lit ''stale''), embedding = Some [0]\<rparr>)]\<rparr>)) =
     Inr (js_trim (render_text (lit ''a.dart'') (lit ''a.dart'') (lit ''x'')))"
proof
  show "fst (findClosestDartFiles
          (example_env\<lparr>batchEmbedContents := \<lambda>i requests. Inl (Error ''503'')\<rparr>)
          (lit ''query'') example_repository) =
     Inl (TypeError ''Cannot read properties of undefined (reading embedding)'')"
    by (simp add: call_defs example_env_fields example_paths example_repository_def lit_key)
next
  have h: "computeCodehash (example_env\<lparr>batchEmbedContents := \<lambda>i requests. Inl (Error ''503'')\<rparr>) =
           computeCodehash example_env"
    by (rule computeCodehash_cong) simp
  show "fst (findClosestDartFiles
          (example_env\<lparr>batchEmbedContents := \<lambda>i requests. Inl (Error ''503'')\<rparr>)
          (lit ''query'')
          (example_repository\<lparr>codehashCache :=
             JsObject [(lit ''/w/a.dart'',
               \<lparr>codehash = Some (lit ''stale''), embedding = Some [0]\<rparr>)]\<rparr>)) =
     Inr (js_trim (render_text (lit ''a.dart'') (lit ''a.dart'') (lit ''x'')))"
    using example_hash_not_stale
    by (simp add: call_defs example_env_fields example_paths example_repository_def lit_key h
        euclideanDistance_def euclideanDistance_loop.simps closest5_def js_sort_def
        build_resultString_def found_text_def)
qed

end
